theory Spec2Isabelle
  imports Complex_Main
begin

section \<open>Exclusion registry\<close>

text \<open>
  Modelled from the spec: the class \<open>ExclusionList\<close> (imported by \<open>bo_algorithm.py\<close>
  from \<open>tuning_algorithms/common.py\<close>, which is not among the sources). The spec gives
  it the operations \<open>contains\<close>, \<open>add\<close>, \<open>copy\<close> and \<open>config_space_exhausted\<close>, the
  last one "true iff space is finite and its cardinality equals the number of excluded
  entries". A configuration is a value of the type \<open>'c\<close>, compared by equality. The
  field \<open>configspace_size\<close> is \<open>None\<close> for an infinite space; it also stands for the
  \<open>hp_ranges\<close> attribute, of which the algorithm uses nothing else.
\<close>

record 'c ExclusionList =
  excl_set :: "'c set"
  configspace_size :: "nat option"

definition ExclusionList_contains :: "'c ExclusionList \<Rightarrow> 'c \<Rightarrow> bool" where
  "ExclusionList_contains E c = (c \<in> excl_set E)"

definition ExclusionList_add :: "'c ExclusionList \<Rightarrow> 'c \<Rightarrow> 'c ExclusionList" where
  "ExclusionList_add E c = E\<lparr>excl_set := insert c (excl_set E)\<rparr>"

definition ExclusionList_empty_list :: "nat option \<Rightarrow> 'c ExclusionList" where
  "ExclusionList_empty_list hp_ranges = \<lparr>excl_set = {}, configspace_size = hp_ranges\<rparr>"

definition config_space_exhausted :: "'c ExclusionList \<Rightarrow> bool" where
  "config_space_exhausted E =
     (case configspace_size E of None \<Rightarrow> False | Some n \<Rightarrow> card (excl_set E) = n)"

text \<open>
  Registries are mutable objects that the algorithm shares with its caller and copies,
  so they live in a store: a reference is an address, \<open>copy\<close> allocates a fresh cell,
  \<open>add\<close> writes the cell of the reference it is called on.
\<close>

type_synonym ref = nat

record 'c heap =
  cells :: "ref \<Rightarrow> 'c ExclusionList"
  next_ref :: ref

definition heap_copy :: "'c heap \<Rightarrow> ref \<Rightarrow> 'c heap \<times> ref" where
  "heap_copy h r =
     (h\<lparr>cells := (cells h)(next_ref h := cells h r), next_ref := Suc (next_ref h)\<rparr>,
      next_ref h)"

definition heap_add :: "'c heap \<Rightarrow> ref \<Rightarrow> 'c \<Rightarrow> 'c heap" where
  "heap_add h r c = h\<lparr>cells := (cells h)(r := ExclusionList_add (cells h r) c)\<rparr>"

fun heap_add_all :: "'c heap \<Rightarrow> ref \<Rightarrow> 'c list \<Rightarrow> 'c heap" where
  "heap_add_all h r [] = h"
| "heap_add_all h r (cand # rest) = heap_add_all (heap_add h r cand) r rest"

section \<open>Duplicate detectors\<close>

text \<open>
  Modelled from the spec: the class \<open>DuplicateDetector\<close> (\<open>utils/duplicate_detector.py\<close>
  is not among the sources). Its one method \<open>contains(existing_candidates,
  new_candidate)\<close> is a predicate on a registry and a configuration. The source names
  two instances in the comment above \<open>_pick_from_locally_optimized\<close>:
  \<open>DuplicateDetectorNoDetection\<close>, which never reports a duplicate, and
  \<open>DuplicateDetectorIdentical\<close>, which reports exactly the members of the registry.
  A detector "is at least \<open>DuplicateDetectorIdentical\<close>" when it reports every member
  of the registry (a distance-threshold detector reports more).
\<close>

type_synonym 'c DuplicateDetector = "'c ExclusionList \<Rightarrow> 'c \<Rightarrow> bool"

definition DuplicateDetectorNoDetection :: "'c DuplicateDetector" where
  "DuplicateDetectorNoDetection E c = False"

definition DuplicateDetectorIdentical :: "'c DuplicateDetector" where
  "DuplicateDetectorIdentical E c = ExclusionList_contains E c"

definition at_least_identical :: "'c DuplicateDetector \<Rightarrow> bool" where
  "at_least_identical dd = (\<forall>E c. ExclusionList_contains E c \<longrightarrow> dd E c)"

section \<open>Ordering, lazy local optimization, final selection\<close>

text \<open>
  \<open>_order_candidates\<close>: the scores come from one batch call, are zipped with the
  candidates (Python's \<open>zip\<close> stops at the shorter list) and sorted by the score alone
  with Python's \<open>sorted\<close>, a stable sort, here \<open>sort_key\<close>. The scores are taken from
  a linear order. The flag \<open>with_scores\<close> selects between the two functions below.
\<close>

definition order_candidates_with_scores ::
  "'c list \<Rightarrow> ('c list \<Rightarrow> 'm option \<Rightarrow> ('s::linorder) list) \<Rightarrow> 'm option \<Rightarrow> ('s \<times> 'c) list" where
  "order_candidates_with_scores candidates scoring_function model =
     (if length candidates = 0 then []
      else sort_key fst (zip (scoring_function candidates model) candidates))"

definition order_candidates ::
  "'c list \<Rightarrow> ('c list \<Rightarrow> 'm option \<Rightarrow> ('s::linorder) list) \<Rightarrow> 'm option \<Rightarrow> 'c list" where
  "order_candidates candidates scoring_function model =
     map snd (order_candidates_with_scores candidates scoring_function model)"

text \<open>
  \<open>_lazily_locally_optimize\<close>: a generator; the list below is the whole stream it can
  yield, in order. Its registry \<open>considered_already\<close> is local to the generator.
\<close>

fun lazily_loop ::
  "('c \<Rightarrow> 'm option \<Rightarrow> 'c) \<Rightarrow> 'm option \<Rightarrow> 'c ExclusionList \<Rightarrow> 'c list \<Rightarrow> ('c \<times> 'c) list" where
  "lazily_loop local_optimizer model considered_already [] = []"
| "lazily_loop local_optimizer model considered_already (cand # rest) =
     (if \<not> ExclusionList_contains considered_already cand
      then (cand, local_optimizer cand model)
           # lazily_loop local_optimizer model (ExclusionList_add considered_already cand) rest
      else lazily_loop local_optimizer model considered_already rest)"

definition lazily_locally_optimize ::
  "'c list \<Rightarrow> ('c \<Rightarrow> 'm option \<Rightarrow> 'c) \<Rightarrow> nat option \<Rightarrow> 'm option \<Rightarrow> ('c \<times> 'c) list" where
  "lazily_locally_optimize candidates local_optimizer hp_ranges model =
     lazily_loop local_optimizer model (ExclusionList_empty_list hp_ranges) candidates"

text \<open>
  \<open>_pick_from_locally_optimized\<close>. \<open>choose_insert\<close> is the body of the loop up to the
  value of \<open>insert_candidate\<close>; \<open>pick_loop\<close> is the loop, on the reference
  \<open>updated_excludelist\<close> of the copy, with the test \<open>len(result) == num_candidates\<close>
  after the pair has been handled, as in the source.
\<close>

definition choose_insert :: "'c DuplicateDetector \<Rightarrow> 'c ExclusionList \<Rightarrow> 'c \<times> 'c \<Rightarrow> 'c option" where
  "choose_insert duplicate_detector updated pair =
     (let original_candidate = fst pair; optimized_candidate = snd pair;
          optimized_is_duplicate = duplicate_detector updated optimized_candidate
      in if optimized_is_duplicate
         then (let original_also_duplicate = duplicate_detector updated original_candidate
               in if \<not> original_also_duplicate then Some original_candidate else None)
         else Some optimized_candidate)"

fun pick_loop ::
  "'c DuplicateDetector \<Rightarrow> int \<Rightarrow> ('c \<times> 'c) list \<Rightarrow> 'c heap \<Rightarrow> ref \<Rightarrow> 'c list
     \<Rightarrow> 'c list \<times> 'c heap" where
  "pick_loop duplicate_detector num_candidates [] h updated_excludelist result = (result, h)"
| "pick_loop duplicate_detector num_candidates (pair # rest) h updated_excludelist result =
     (case choose_insert duplicate_detector (cells h updated_excludelist) pair of
        None \<Rightarrow>
          if int (length result) = num_candidates then (result, h)
          else pick_loop duplicate_detector num_candidates rest h updated_excludelist result
      | Some insert_candidate \<Rightarrow>
          if int (length (result @ [insert_candidate])) = num_candidates
          then (result @ [insert_candidate], heap_add h updated_excludelist insert_candidate)
          else pick_loop duplicate_detector num_candidates rest
                 (heap_add h updated_excludelist insert_candidate) updated_excludelist
                 (result @ [insert_candidate]))"

definition pick_from_locally_optimized ::
  "('c \<times> 'c) list \<Rightarrow> 'c heap \<Rightarrow> ref \<Rightarrow> int \<Rightarrow> 'c DuplicateDetector \<Rightarrow> 'c list \<times> 'c heap" where
  "pick_from_locally_optimized candidates_with_optimization h exclusion_candidates
       num_candidates duplicate_detector =
     (let (h1, updated_excludelist) = heap_copy h exclusion_candidates
      in pick_loop duplicate_detector num_candidates candidates_with_optimization
           h1 updated_excludelist [])"

section \<open>The Bayesian optimization algorithm\<close>

datatype error = AssertionError string | IndexError | StopIteration | AttributeError

text \<open>
  The two warnings of \<open>next_candidates\<close> have the same text; an entry keeps the three
  values it formats: the size of the configuration space, the number of candidates
  returned and the number requested.
\<close>

datatype log_entry = Warning_all_selected "nat option" nat int

text \<open>
  The fields of the named tuple \<open>BayesianOptimizationAlgorithm\<close>. Its collaborators are
  not among the sources and are parameters:
  \<^item> \<open>initial_candidates_generator\<close> is \<open>generate_candidates_en_bulk\<close> of the candidate
    generator, from its random state, the number of candidates and the registry, and
    \<open>unique_candidates_generator\<close> is \<open>generate_unique_candidates\<close> applied to it;
  \<^item> \<open>initial_candidates_scorer\<close> is the method \<open>score\<close>, \<open>local_optimizer\<close> the
    method \<open>optimize\<close>, and \<open>local_optimizer_is_LBFGS\<close> the test
    \<open>isinstance(self.local_optimizer, LBFGSOptimizeAcquisition)\<close>;
  \<^item> \<open>append_candidate\<close> and \<open>transformer_model\<close> are the two methods used of the state
    transformer (the flag of the latter is \<open>skip_optimization\<close>);
  \<^item> \<open>exclusion_candidates\<close> is the reference of the caller's registry;
  \<^item> \<open>debug_log\<close> tells whether a \<open>DebugLogPrinter\<close> is given (what it records is not
    modelled); the profiler only measures time and is left out.
  The objects that a call mutates are in the environment: the store of registries, the
  state transformer (\<open>None\<close> when none was passed), the random state of the generator and
  the warnings logged.
\<close>

record ('c, 'm, 't, 'g, 's) BayesianOptimizationAlgorithm =
  initial_candidates_generator :: "'g \<Rightarrow> int \<Rightarrow> 'c ExclusionList \<Rightarrow> 'c list \<times> 'g"
  unique_candidates_generator :: "'g \<Rightarrow> int \<Rightarrow> 'c ExclusionList \<Rightarrow> 'c list \<times> 'g"
  initial_candidates_scorer :: "'c list \<Rightarrow> 'm option \<Rightarrow> 's list"
  num_initial_candidates :: int
  local_optimizer :: "'c \<Rightarrow> 'm option \<Rightarrow> 'c"
  local_optimizer_is_LBFGS :: bool
  append_candidate :: "'t \<Rightarrow> 'c \<Rightarrow> 't"
  transformer_model :: "'t \<Rightarrow> bool \<Rightarrow> 'm"
  exclusion_candidates :: ref
  num_requested_candidates :: int
  greedy_batch_selection :: bool
  duplicate_detector :: "'c DuplicateDetector"
  sample_unique_candidates :: bool
  debug_log :: bool

record ('c, 't, 'g) env =
  registries :: "'c heap"
  pending_candidate_state_transformer :: "'t option"
  random_state :: 'g
  warnings :: "log_entry list"

text \<open>
  \<open>_get_next_candidates\<close>. With a debug log, \<open>initial_candidates[0]\<close> raises
  \<open>IndexError\<close> on an empty list, and the peek at the first optimized pair raises
  \<open>StopIteration\<close> on an empty stream.
\<close>

definition get_next_candidates ::
  "('c, 'm, 't, 'g, 's::linorder) BayesianOptimizationAlgorithm \<Rightarrow> int \<Rightarrow> 'm option
     \<Rightarrow> ('c, 't, 'g) env \<Rightarrow> (error + 'c list) \<times> ('c, 't, 'g) env" where
  "get_next_candidates alg num_candidates model e =
     (let excl = cells (registries e) (exclusion_candidates alg);
          (generated, g) =
            (if sample_unique_candidates alg then unique_candidates_generator alg
             else initial_candidates_generator alg)
              (random_state e) (num_initial_candidates alg) excl;
          e1 = e\<lparr>random_state := g\<rparr>;
          initial_candidates =
            (if debug_log alg
             then map snd (order_candidates_with_scores generated
                             (initial_candidates_scorer alg) model)
             else order_candidates generated (initial_candidates_scorer alg) model)
      in if debug_log alg \<and> initial_candidates = [] then (Inl IndexError, e1)
         else
           (let candidates_with_optimization =
                  lazily_locally_optimize initial_candidates (local_optimizer alg)
                    (configspace_size excl) model
            in if debug_log alg \<and> local_optimizer_is_LBFGS alg
                    \<and> candidates_with_optimization = []
               then (Inl StopIteration, e1)
               else
                 (let (candidates, h) =
                        pick_from_locally_optimized candidates_with_optimization
                          (registries e1) (exclusion_candidates alg) num_candidates
                          (duplicate_detector alg)
                  in (Inr candidates, e1\<lparr>registries := h\<rparr>))))"

text \<open>
  The body of \<open>if outer_iter < num_outer_iterations - 1 and len(inner_candidates) > 0\<close>:
  the picks are added to the caller's registry, then appended to the state transformer
  (an attribute access on \<open>None\<close> raises), and the new model is requested with
  \<open>skip_optimization=True\<close>.
\<close>

definition after_pick ::
  "('c, 'm, 't, 'g, 's) BayesianOptimizationAlgorithm \<Rightarrow> 'c list \<Rightarrow> ('c, 't, 'g) env
     \<Rightarrow> (error + 'm option) \<times> ('c, 't, 'g) env" where
  "after_pick alg inner_candidates e =
     (let e1 = e\<lparr>registries :=
                   heap_add_all (registries e) (exclusion_candidates alg) inner_candidates\<rparr>
      in case pending_candidate_state_transformer e1 of
           None \<Rightarrow> (Inl AttributeError, e1)
         | Some t \<Rightarrow>
             (let t1 = foldl (append_candidate alg) t inner_candidates
              in (Inr (Some (transformer_model alg t1 True)),
                  e1\<lparr>pending_candidate_state_transformer := Some t1\<rparr>)))"

text \<open>
  One iteration of the outer loop of \<open>next_candidates\<close>: it breaks with the candidates
  to return, or goes on with the new values of \<open>candidates\<close>, \<open>just_added\<close> and
  \<open>model\<close>.
\<close>

datatype ('c, 'm) outcome = Break "'c list" | Next "'c list" bool "'m option"

definition outer_body ::
  "('c, 'm, 't, 'g, 's::linorder) BayesianOptimizationAlgorithm \<Rightarrow> int \<Rightarrow> int \<Rightarrow> int
     \<Rightarrow> 'c list \<Rightarrow> bool \<Rightarrow> 'm option \<Rightarrow> ('c, 't, 'g) env
     \<Rightarrow> (error + ('c, 'm) outcome) \<times> ('c, 't, 'g) env" where
  "outer_body alg num_outer_iterations num_inner_candidates outer_iter
       candidates just_added model e =
     (let excl = cells (registries e) (exclusion_candidates alg)
      in if just_added \<and> config_space_exhausted excl
         then (Inr (Break candidates),
               e\<lparr>warnings := warnings e @
                   [Warning_all_selected (configspace_size excl) (length candidates)
                      (num_requested_candidates alg)]\<rparr>)
         else
           (case get_next_candidates alg num_inner_candidates model e of
              (Inl err, e1) \<Rightarrow> (Inl err, e1)
            | (Inr inner_candidates, e1) \<Rightarrow>
                (let candidates1 = candidates @ inner_candidates
                 in case (if outer_iter < num_outer_iterations - 1
                              \<and> length inner_candidates > 0
                          then (case after_pick alg inner_candidates e1 of
                                  (Inl err, e2) \<Rightarrow> (Inl err, e2)
                                | (Inr model2, e2) \<Rightarrow> (Inr (True, model2), e2))
                          else (Inr (False, model), e1)) of
                      (Inl err, e2) \<Rightarrow> (Inl err, e2)
                    | (Inr (just_added2, model2), e2) \<Rightarrow>
                        if int (length inner_candidates) < num_inner_candidates
                           \<and> int (length candidates1) < num_requested_candidates alg
                        then (Inr (Break candidates1),
                              e2\<lparr>warnings := warnings e2 @
                                  [Warning_all_selected
                                     (configspace_size
                                        (cells (registries e2) (exclusion_candidates alg)))
                                     (length candidates1)
                                     (num_requested_candidates alg)]\<rparr>)
                        else (Inr (Next candidates1 just_added2 model2), e2))))"

fun outer_loop ::
  "('c, 'm, 't, 'g, 's::linorder) BayesianOptimizationAlgorithm \<Rightarrow> int \<Rightarrow> int \<Rightarrow> int list
     \<Rightarrow> 'c list \<Rightarrow> bool \<Rightarrow> 'm option \<Rightarrow> ('c, 't, 'g) env
     \<Rightarrow> (error + 'c list) \<times> ('c, 't, 'g) env" where
  "outer_loop alg num_outer_iterations num_inner_candidates [] candidates just_added model e =
     (Inr candidates, e)"
| "outer_loop alg num_outer_iterations num_inner_candidates (outer_iter # rest)
       candidates just_added model e =
     (case outer_body alg num_outer_iterations num_inner_candidates outer_iter
             candidates just_added model e of
        (Inl err, e1) \<Rightarrow> (Inl err, e1)
      | (Inr (Break candidates1), e1) \<Rightarrow> (Inr candidates1, e1)
      | (Inr (Next candidates1 just_added1 model1), e1) \<Rightarrow>
          outer_loop alg num_outer_iterations num_inner_candidates rest
            candidates1 just_added1 model1 e1)"

text \<open>
  \<open>next_candidates\<close>: \<open>range(num_outer_iterations)\<close> is the list of the indices from 0,
  empty when the number is not positive. A state transformer object is truthy, so the
  assertion tests that one was passed.
\<close>

definition num_outer_iterations_of ::
  "('c, 'm, 't, 'g, 's) BayesianOptimizationAlgorithm \<Rightarrow> int" where
  "num_outer_iterations_of alg =
     (if greedy_batch_selection alg then num_requested_candidates alg else 1)"

definition num_inner_candidates_of ::
  "('c, 'm, 't, 'g, 's) BayesianOptimizationAlgorithm \<Rightarrow> int" where
  "num_inner_candidates_of alg =
     (if greedy_batch_selection alg then 1 else num_requested_candidates alg)"

definition next_candidates ::
  "('c, 'm, 't, 'g, 's::linorder) BayesianOptimizationAlgorithm \<Rightarrow> ('c, 't, 'g) env
     \<Rightarrow> (error + 'c list) \<times> ('c, 't, 'g) env" where
  "next_candidates alg e =
     (let num_outer_iterations = num_outer_iterations_of alg;
          num_inner_candidates = num_inner_candidates_of alg
      in if \<not> (num_outer_iterations = 1 \<or> pending_candidate_state_transformer e \<noteq> None)
         then (Inl (AssertionError
                 ''Need pending_candidate_state_transformer for greedy batch selection''), e)
         else outer_loop alg num_outer_iterations num_inner_candidates
                (map int [0..<nat num_outer_iterations]) [] True None e)"

section \<open>The acceptance rule in the words of the specification\<close>

text \<open>
  The rule of the specification for the final selection, written from its sentences and
  not from the source: stop once the requested number of accepted candidates is
  collected or the stream is exhausted; otherwise accept the refined point unless it
  collides with a selected or excluded configuration, fall back to the pre-refinement
  candidate if that one is not a duplicate, and skip the pair otherwise. It is compared
  with \<open>pick_loop\<close> below.
\<close>

fun accept_by_rule ::
  "'c DuplicateDetector \<Rightarrow> int \<Rightarrow> ('c \<times> 'c) list \<Rightarrow> 'c ExclusionList \<Rightarrow> 'c list \<Rightarrow> 'c list" where
  "accept_by_rule dd request_count [] registry accepted = accepted"
| "accept_by_rule dd request_count ((original, refined) # rest) registry accepted =
     (if request_count \<le> int (length accepted) then accepted
      else if \<not> dd registry refined
        then accept_by_rule dd request_count rest (ExclusionList_add registry refined)
               (accepted @ [refined])
      else if \<not> dd registry original
        then accept_by_rule dd request_count rest (ExclusionList_add registry original)
               (accepted @ [original])
      else accept_by_rule dd request_count rest registry accepted)"

section \<open>Constrained searcher: update with a reported result\<close>

text \<open>
  \<open>ConstrainedGPFIFOSearcher._update\<close>. A reported result maps a field name to its
  value; the specification types the values as floats, on which \<open>float(...)\<close> is the
  identity, and they are reals here. Not among the sources, and parameters: the method
  \<open>_update\<close> of the superclass \<open>MultiModelGPFIFOSearcher\<close> (it can raise),
  \<open>state_transformer.label_candidate\<close> on a \<open>CandidateEvaluation\<close> (a configuration and
  its metrics), and the constant \<open>INTERNAL_CONSTRAINT_NAME\<close>. The state is the state of
  the searcher that these two methods change, with the values written by
  \<open>logger.info\<close>.
\<close>

type_synonym result = "string \<rightharpoonup> real"

record ('cfg, 'st) ConstrainedGPFIFOSearcher =
  constraint_attr :: string
  INTERNAL_CONSTRAINT_NAME :: string
  super_update :: "'st \<Rightarrow> 'cfg \<Rightarrow> result \<Rightarrow> error + 'st"
  label_candidate :: "'st \<Rightarrow> 'cfg \<times> result \<Rightarrow> 'st"
  searcher_debug_log :: bool

definition missing_constraint_message :: "string \<Rightarrow> string" where
  "missing_constraint_message attr =
     ''Constraint metric '' @ attr @ '' not included in ''
       @ ''reported result. Make sure your evaluation function reports it.''"

definition ConstrainedGPFIFOSearcher_update ::
  "('cfg, 'st) ConstrainedGPFIFOSearcher \<Rightarrow> 'st \<times> real list \<Rightarrow> 'cfg \<Rightarrow> result
     \<Rightarrow> error + ('st \<times> real list)" where
  "ConstrainedGPFIFOSearcher_update self state config result =
     (case super_update self (fst state) config result of
        Inl err \<Rightarrow> Inl err
      | Inr st1 \<Rightarrow>
          (case result (constraint_attr self) of
             None \<Rightarrow> Inl (AssertionError (missing_constraint_message (constraint_attr self)))
           | Some v \<Rightarrow>
               (let constr_val = v;
                    metrics = [INTERNAL_CONSTRAINT_NAME self \<mapsto> constr_val];
                    st2 = label_candidate self st1 (config, metrics)
                in Inr (st2, if searcher_debug_log self then snd state @ [constr_val]
                             else snd state))))"

section \<open>Hyperband: inference of the maximum resource level\<close>

text \<open>
  Modelled from the spec: the inference of \<open>max_t\<close> at the construction of
  \<open>HyperbandScheduler\<close> (\<open>schedulers/hyperband.py\<close> is not among the sources; its test
  \<open>test_hyperband_max_t_inference\<close> is). The specification: \<open>max_t\<close> is "inferred from
  the configuration space's declared epoch/step bounds if not given -- fails with a
  configuration error if it cannot be inferred and none is given". The cases of the
  test fix the rest: the fields looked at are \<open>epochs\<close>, \<open>max_t\<close> and \<open>max_epochs\<close>,
  in this order, and a field qualifies when it is bound to a fixed integer and not to a
  domain to sample from (\<open>randint(15, 20)\<close>). An entry of a configuration space is a
  fixed integer, another fixed value, or a domain.
\<close>

datatype hp_value = Fixed_int int | Fixed_other | Domain

type_synonym config_space = "string \<rightharpoonup> hp_value"

datatype scheduler_error = Configuration_error

definition max_t_names :: "string list" where
  "max_t_names = [''epochs'', ''max_t'', ''max_epochs'']"

definition qualifies :: "config_space \<Rightarrow> string \<Rightarrow> bool" where
  "qualifies configspace name =
     (case configspace name of Some (Fixed_int v) \<Rightarrow> True | _ \<Rightarrow> False)"

fun infer_max_t :: "string list \<Rightarrow> config_space \<Rightarrow> int option" where
  "infer_max_t [] configspace = None"
| "infer_max_t (name # names) configspace =
     (case configspace name of
        Some (Fixed_int v) \<Rightarrow> Some v
      | _ \<Rightarrow> infer_max_t names configspace)"

definition HyperbandScheduler_max_t :: "int option \<Rightarrow> config_space \<Rightarrow> scheduler_error + int" where
  "HyperbandScheduler_max_t max_t configspace =
     (case max_t of
        Some t \<Rightarrow> Inr t
      | None \<Rightarrow>
          (case infer_max_t max_t_names configspace of
             Some t \<Rightarrow> Inr t
           | None \<Rightarrow> Inl Configuration_error))"

section \<open>A small instance\<close>

text \<open>
  A concrete algorithm on which the functions are run: configurations are natural
  numbers, the generator proposes the next numbers from its counter that the registry
  does not hold, the score of a candidate is its value, the local optimizer steps one
  down, the state transformer keeps the list of the candidates appended to it, and the
  caller's registry is the cell 0 of a store with one allocated cell.
\<close>

definition demo_generator :: "nat \<Rightarrow> int \<Rightarrow> nat ExclusionList \<Rightarrow> nat list \<times> nat" where
  "demo_generator g n E =
     (filter (\<lambda>c. \<not> ExclusionList_contains E c) (map (\<lambda>i. g + i) [0..<nat n]), g + nat n)"

definition demo_alg ::
  "bool \<Rightarrow> int \<Rightarrow> (nat, unit, nat list, nat, int) BayesianOptimizationAlgorithm" where
  "demo_alg greedy n =
     \<lparr>initial_candidates_generator = demo_generator,
      unique_candidates_generator = demo_generator,
      initial_candidates_scorer = (\<lambda>cs m. map int cs),
      num_initial_candidates = 3,
      local_optimizer = (\<lambda>c m. c - 1),
      local_optimizer_is_LBFGS = False,
      append_candidate = (\<lambda>t c. t @ [c]),
      transformer_model = (\<lambda>t skip. ()),
      exclusion_candidates = 0,
      num_requested_candidates = n,
      greedy_batch_selection = greedy,
      duplicate_detector = DuplicateDetectorIdentical,
      sample_unique_candidates = False,
      debug_log = False\<rparr>"

text \<open>
  A second algorithm, whose scores depend on the model: without a model a candidate is
  scored by its value, with a model by the negated value, so that the model decides
  which candidate comes first. The model of the state transformer is the list of the
  candidates appended to it, and the local optimizer leaves a candidate as it is.
\<close>

definition demo_alg_model_scored ::
  "bool \<Rightarrow> int \<Rightarrow> (nat, nat list, nat list, nat, int) BayesianOptimizationAlgorithm" where
  "demo_alg_model_scored greedy n =
     \<lparr>initial_candidates_generator = demo_generator,
      unique_candidates_generator = demo_generator,
      initial_candidates_scorer =
        (\<lambda>cs m. case m of None \<Rightarrow> map int cs | Some appended \<Rightarrow> map (\<lambda>c. - int c) cs),
      num_initial_candidates = 3,
      local_optimizer = (\<lambda>c m. c),
      local_optimizer_is_LBFGS = False,
      append_candidate = (\<lambda>t c. t @ [c]),
      transformer_model = (\<lambda>t skip. t),
      exclusion_candidates = 0,
      num_requested_candidates = n,
      greedy_batch_selection = greedy,
      duplicate_detector = DuplicateDetectorIdentical,
      sample_unique_candidates = False,
      debug_log = False\<rparr>"

definition demo_heap :: "nat set \<Rightarrow> nat option \<Rightarrow> nat heap" where
  "demo_heap X sz = \<lparr>cells = (\<lambda>_. \<lparr>excl_set = X, configspace_size = sz\<rparr>), next_ref = 1\<rparr>"

definition demo_env :: "nat set \<Rightarrow> nat option \<Rightarrow> nat list option \<Rightarrow> (nat, nat list, nat) env" where
  "demo_env X sz t =
     \<lparr>registries = demo_heap X sz,
      pending_candidate_state_transformer = t,
      random_state = 0,
      warnings = []\<rparr>"

definition demo_searcher :: "(nat, (nat \<times> result) list) ConstrainedGPFIFOSearcher" where
  "demo_searcher =
     \<lparr>constraint_attr = ''cost'',
      INTERNAL_CONSTRAINT_NAME = ''constraint_metric'',
      super_update = (\<lambda>st config result. Inr st),
      label_candidate = (\<lambda>st evaluation. st @ [evaluation]),
      searcher_debug_log = False\<rparr>"

section \<open>The selection in the words of the specification\<close>

text \<open>
  What a call is expected to return, written from the sentences of the specification
  and not from the loops of the source, on plain values (a registry, a state of the
  state transformer, a model, a random state) without store, flags or log. It is
  compared with \<open>next_candidates\<close> below.

  \<open>stream_of\<close> is the candidate stream of one selection: candidates are generated
  outside the registry, scored under the current model, sorted ascending, and lazily
  refined, best score first. \<open>accepted_of_stream\<close> is what the acceptance rule accepts
  of a whole stream, with no bound on the number: the refined point unless it collides
  with a selected or excluded configuration, else the pre-refinement candidate unless
  that one is a duplicate, else nothing.
\<close>

definition stream_of ::
  "('c, 'm, 't, 'g, 's::linorder) BayesianOptimizationAlgorithm \<Rightarrow> 'm option \<Rightarrow> 'g
     \<Rightarrow> 'c ExclusionList \<Rightarrow> ('c \<times> 'c) list \<times> 'g" where
  "stream_of alg model g registry =
     (let (generated, g1) =
            (if sample_unique_candidates alg then unique_candidates_generator alg
             else initial_candidates_generator alg)
              g (num_initial_candidates alg) registry
      in (lazily_locally_optimize
            (order_candidates generated (initial_candidates_scorer alg) model)
            (local_optimizer alg) (configspace_size registry) model,
          g1))"

fun accepted_of_stream ::
  "'c DuplicateDetector \<Rightarrow> ('c \<times> 'c) list \<Rightarrow> 'c ExclusionList \<Rightarrow> 'c list" where
  "accepted_of_stream dd [] registry = []"
| "accepted_of_stream dd ((original, refined) # rest) registry =
     (if \<not> dd registry refined
        then refined # accepted_of_stream dd rest (ExclusionList_add registry refined)
      else if \<not> dd registry original
        then original # accepted_of_stream dd rest (ExclusionList_add registry original)
      else accepted_of_stream dd rest registry)"

text \<open>
  \<open>expected_run\<close> is the sequence of selections: each of the given number of rounds stops
  with what it has when the registry reports the space exhausted, takes the first
  \<open>request_count\<close> accepted candidates of the stream of the round, stops with a short
  list when the whole stream yields fewer, and otherwise adds the picks to the registry
  and feeds them to the state transformer, whose model, not refitted, is the one of the
  next round. It returns the candidates with the reason why it stopped.
  \<open>expected_selection\<close> is the call: in greedy mode \<open>num_requested_candidates\<close> rounds of
  one candidate, in batch mode one round of \<open>num_requested_candidates\<close>, the first round
  without a model of the state transformer.
\<close>

datatype stop_reason = Collected | Space_exhausted | Stream_ran_out

fun expected_run ::
  "('c, 'm, 't, 'g, 's::linorder) BayesianOptimizationAlgorithm \<Rightarrow> nat \<Rightarrow> int
     \<Rightarrow> 'c ExclusionList \<Rightarrow> 't option \<Rightarrow> 'm option \<Rightarrow> 'g \<Rightarrow> 'c list \<times> stop_reason" where
  "expected_run alg 0 request_count registry transformer model g = ([], Collected)"
| "expected_run alg (Suc rounds) request_count registry transformer model g =
     (if config_space_exhausted registry then ([], Space_exhausted)
      else
        (let accepted =
               accepted_of_stream (duplicate_detector alg)
                 (fst (stream_of alg model g registry)) registry
         in if int (length accepted) < request_count then (accepted, Stream_ran_out)
            else
              (let picks = take (nat request_count) accepted;
                   registry1 = fold (\<lambda>c E. ExclusionList_add E c) picks registry;
                   transformer1 =
                     map_option (\<lambda>t. foldl (append_candidate alg) t picks) transformer;
                   model1 = map_option (\<lambda>t. transformer_model alg t True) transformer1;
                   later = expected_run alg rounds request_count registry1 transformer1
                             model1 (snd (stream_of alg model g registry))
               in (picks @ fst later, snd later))))"

definition expected_selection ::
  "('c, 'm, 't, 'g, 's::linorder) BayesianOptimizationAlgorithm \<Rightarrow> 'c ExclusionList
     \<Rightarrow> 't option \<Rightarrow> 'g \<Rightarrow> 'c list \<times> stop_reason" where
  "expected_selection alg registry transformer g =
     (if greedy_batch_selection alg
      then expected_run alg (nat (num_requested_candidates alg)) 1
             registry transformer None g
      else expected_run alg 1 (num_requested_candidates alg) registry transformer None g)"

section \<open>Invariant of the outer loop\<close>

text \<open>
  At the head of an iteration that is not the first, the caller's registry is an
  allocated cell that holds what it held at the call and every candidate picked so far.
\<close>

definition inv_registry :: "'c set \<Rightarrow> ref \<Rightarrow> 'c list \<Rightarrow> ('c, 't, 'g) env \<Rightarrow> bool" where
  "inv_registry E0 r cands e =
     (r < next_ref (registries e) \<and> E0 \<subseteq> excl_set (cells (registries e) r)
      \<and> set cands \<subseteq> excl_set (cells (registries e) r))"

section \<open>Properties of the store\<close>

lemma heap_add_cells_other: "r \<noteq> u \<Longrightarrow> cells (heap_add h u c) r = cells h r"
  by (simp add: heap_add_def)

lemma heap_add_cells_same:
  "excl_set (cells (heap_add h u c) u) = insert c (excl_set (cells h u))"
  "configspace_size (cells (heap_add h u c) u) = configspace_size (cells h u)"
  by (simp_all add: heap_add_def ExclusionList_add_def)

lemma heap_add_next_ref: "next_ref (heap_add h u c) = next_ref h"
  by (simp add: heap_add_def)

lemma heap_add_all_same:
  "excl_set (cells (heap_add_all h r xs) r) = excl_set (cells h r) \<union> set xs"
  "configspace_size (cells (heap_add_all h r xs) r) = configspace_size (cells h r)"
  "next_ref (heap_add_all h r xs) = next_ref h"
  by (induction h r xs rule: heap_add_all.induct)
     (simp_all add: heap_add_cells_same heap_add_next_ref)

lemma heap_add_all_fold:
  "cells (heap_add_all h r xs) r = fold (\<lambda>c E. ExclusionList_add E c) xs (cells h r)"
  by (induction h r xs rule: heap_add_all.induct) (simp_all add: heap_add_def)

text \<open>
  The identical detector performs detection; the detector without detection does not,
  as the comment above \<open>_pick_from_locally_optimized\<close> warns.
\<close>

lemma detectors_at_least_identical:
  "at_least_identical DuplicateDetectorIdentical"
  "\<not> at_least_identical (DuplicateDetectorNoDetection :: 'c DuplicateDetector)"
proof -
  show "at_least_identical DuplicateDetectorIdentical"
    by (simp add: at_least_identical_def DuplicateDetectorIdentical_def)
  have "ExclusionList_contains \<lparr>excl_set = {c}, configspace_size = None\<rparr> c" for c :: 'c
    by (simp add: ExclusionList_contains_def)
  then show "\<not> at_least_identical (DuplicateDetectorNoDetection :: 'c DuplicateDetector)"
    unfolding at_least_identical_def DuplicateDetectorNoDetection_def by blast
qed

section \<open>Properties of the final selection\<close>

lemma pick_loop_frame:
  "r \<noteq> u \<Longrightarrow> cells (snd (pick_loop dd n ps h u res)) r = cells h r"
  by (induction dd n ps h u res rule: pick_loop.induct)
     (auto simp: heap_add_cells_other split: option.splits)

lemma pick_loop_next_ref:
  "next_ref (snd (pick_loop dd n ps h u res)) = next_ref h"
  by (induction dd n ps h u res rule: pick_loop.induct)
     (auto simp: heap_add_next_ref split: option.splits)

lemma choose_insert_fresh:
  "at_least_identical dd \<Longrightarrow> choose_insert dd E p = Some c \<Longrightarrow> c \<notin> excl_set E"
  by (auto simp: choose_insert_def at_least_identical_def ExclusionList_contains_def Let_def
           split: if_splits)

lemma pick_loop_fresh:
  "at_least_identical dd \<Longrightarrow>
   \<exists>new. fst (pick_loop dd n ps h u res) = res @ new \<and> distinct new
          \<and> set new \<inter> excl_set (cells h u) = {}"
proof (induction dd n ps h u res rule: pick_loop.induct)
  case (1 dd n h u res)
  then show ?case by simp
next
  case (2 dd n pair rest h u res)
  show ?case
  proof (cases "choose_insert dd (cells h u) pair")
    case None
    with 2 show ?thesis by auto
  next
    case (Some c)
    have fresh: "c \<notin> excl_set (cells h u)"
      using choose_insert_fresh[OF "2.prems" Some] .
    show ?thesis
    proof (cases "int (length (res @ [c])) = n")
      case True
      with Some fresh show ?thesis by auto
    next
      case False
      from "2.IH"(2)[OF Some False "2.prems"]
      obtain new where new: "fst (pick_loop dd n rest (heap_add h u c) u (res @ [c])) = (res @ [c]) @ new"
        "distinct new" "set new \<inter> excl_set (cells (heap_add h u c) u) = {}"
        by blast
      have "fst (pick_loop dd n (pair # rest) h u res) = res @ (c # new)"
        using Some False new(1) by simp
      moreover have "distinct (c # new)"
        using new(2,3) by (auto simp: heap_add_cells_same)
      moreover have "set (c # new) \<inter> excl_set (cells h u) = {}"
        using new(3) fresh by (auto simp: heap_add_cells_same)
      ultimately show ?thesis by blast
    qed
  qed
qed

lemma pick_loop_length:
  "int (length res) < n \<Longrightarrow> int (length (fst (pick_loop dd n ps h u res))) \<le> n"
  by (induction dd n ps h u res rule: pick_loop.induct)
     (auto split: option.splits)

lemma pick_loop_records:
  "\<exists>new. fst (pick_loop dd n ps h u res) = res @ new
          \<and> excl_set (cells (snd (pick_loop dd n ps h u res)) u)
              = excl_set (cells h u) \<union> set new"
proof (induction dd n ps h u res rule: pick_loop.induct)
  case (1 dd n h u res)
  then show ?case by simp
next
  case (2 dd n pair rest h u res)
  show ?case
  proof (cases "choose_insert dd (cells h u) pair")
    case None
    with 2 show ?thesis by auto
  next
    case (Some c)
    show ?thesis
    proof (cases "int (length (res @ [c])) = n")
      case True
      with Some show ?thesis by (auto simp: heap_add_cells_same)
    next
      case False
      from "2.IH"(2)[OF Some False]
      obtain new where new: "fst (pick_loop dd n rest (heap_add h u c) u (res @ [c])) = (res @ [c]) @ new"
        "excl_set (cells (snd (pick_loop dd n rest (heap_add h u c) u (res @ [c]))) u)
           = excl_set (cells (heap_add h u c) u) \<union> set new"
        by blast
      have "fst (pick_loop dd n (pair # rest) h u res) = res @ (c # new)"
        using Some False new(1) by simp
      moreover have "excl_set (cells (snd (pick_loop dd n (pair # rest) h u res)) u)
                       = excl_set (cells h u) \<union> set (c # new)"
        using Some False new(2) by (auto simp: heap_add_cells_same)
      ultimately show ?thesis by blast
    qed
  qed
qed

lemma pick_from_frame:
  assumes "r < next_ref h" "pick_from_locally_optimized ps h r n dd = (out, h')"
  shows "cells h' r = cells h r" and "next_ref h' = Suc (next_ref h)"
proof -
  let ?h1 = "h\<lparr>cells := (cells h)(next_ref h := cells h r), next_ref := Suc (next_ref h)\<rparr>"
  have eq: "pick_loop dd n ps ?h1 (next_ref h) [] = (out, h')"
    using assms(2) by (simp add: pick_from_locally_optimized_def heap_copy_def)
  have "cells (snd (pick_loop dd n ps ?h1 (next_ref h) [])) r = cells ?h1 r"
    using assms(1) by (intro pick_loop_frame) simp
  with eq assms(1) show "cells h' r = cells h r" by simp
  have "next_ref (snd (pick_loop dd n ps ?h1 (next_ref h) [])) = next_ref ?h1"
    by (rule pick_loop_next_ref)
  with eq show "next_ref h' = Suc (next_ref h)" by simp
qed

lemma pick_from_fresh:
  assumes "at_least_identical dd" "pick_from_locally_optimized ps h r n dd = (out, h')"
  shows "distinct out" and "set out \<inter> excl_set (cells h r) = {}"
proof -
  let ?h1 = "h\<lparr>cells := (cells h)(next_ref h := cells h r), next_ref := Suc (next_ref h)\<rparr>"
  have eq: "pick_loop dd n ps ?h1 (next_ref h) [] = (out, h')"
    using assms(2) by (simp add: pick_from_locally_optimized_def heap_copy_def)
  from pick_loop_fresh[OF assms(1), of n ps ?h1 "next_ref h" "[]"] eq
  have "distinct out \<and> set out \<inter> excl_set (cells ?h1 (next_ref h)) = {}" by simp
  then show "distinct out" and "set out \<inter> excl_set (cells h r) = {}" by simp_all
qed

lemma pick_from_length:
  assumes "0 < n" "pick_from_locally_optimized ps h r n dd = (out, h')"
  shows "int (length out) \<le> n"
proof -
  let ?h1 = "h\<lparr>cells := (cells h)(next_ref h := cells h r), next_ref := Suc (next_ref h)\<rparr>"
  have eq: "pick_loop dd n ps ?h1 (next_ref h) [] = (out, h')"
    using assms(2) by (simp add: pick_from_locally_optimized_def heap_copy_def)
  from pick_loop_length[of "[]" n dd ps ?h1 "next_ref h"] assms(1) eq show ?thesis by simp
qed

lemma pick_from_records:
  assumes "pick_from_locally_optimized ps h r n dd = (out, h')"
  shows "excl_set (cells h' (next_ref h)) = excl_set (cells h r) \<union> set out"
proof -
  let ?h1 = "h\<lparr>cells := (cells h)(next_ref h := cells h r), next_ref := Suc (next_ref h)\<rparr>"
  have eq: "pick_loop dd n ps ?h1 (next_ref h) [] = (out, h')"
    using assms by (simp add: pick_from_locally_optimized_def heap_copy_def)
  from pick_loop_records[of dd n ps ?h1 "next_ref h" "[]"] eq show ?thesis by auto
qed

lemma choose_insert_rule:
  "choose_insert dd E (orig, refined) =
     (if \<not> dd E refined then Some refined else if \<not> dd E orig then Some orig else None)"
  by (simp add: choose_insert_def)

lemma pick_loop_follows_rule:
  "int (length res) < n \<Longrightarrow>
   fst (pick_loop dd n ps h u res) = accept_by_rule dd n ps (cells h u) res"
proof (induction dd n ps h u res rule: pick_loop.induct)
  case (1 dd n h u res)
  then show ?case by simp
next
  case (2 dd n pair rest h u res)
  obtain orig refined where pair: "pair = (orig, refined)" by (cases pair)
  have stop: "accept_by_rule dd n rest E acc = acc" if "n \<le> int (length acc)" for E acc
    using that by (cases rest) auto
  show ?case
  proof (cases "choose_insert dd (cells h u) pair")
    case None
    with 2 pair show ?thesis by (auto simp: choose_insert_rule split: if_splits)
  next
    case (Some c)
    show ?thesis
    proof (cases "int (length (res @ [c])) = n")
      case True
      with Some pair "2.prems" stop[of "res @ [c]"] show ?thesis
        by (auto simp: choose_insert_rule split: if_splits)
    next
      case False
      with "2.prems" have lt: "int (length (res @ [c])) < n" by simp
      from "2.IH"(2)[OF Some False lt] Some pair "2.prems" False show ?thesis
        by (auto simp: choose_insert_rule heap_add_def split: if_splits)
    qed
  qed
qed

lemma pick_from_follows_rule:
  "0 < n \<Longrightarrow> fst (pick_from_locally_optimized ps h r n dd) = accept_by_rule dd n ps (cells h r) []"
  using pick_loop_follows_rule[of "[]" n dd ps _ "next_ref h"]
  by (simp add: pick_from_locally_optimized_def heap_copy_def)

lemma accept_by_rule_take:
  "accept_by_rule dd n ps E acc
     = acc @ take (nat n - length acc) (accepted_of_stream dd ps E)"
proof (induction dd n ps E acc rule: accept_by_rule.induct)
  case (1 dd n E acc)
  then show ?case by simp
next
  case (2 dd n original refined rest E acc)
  show ?case
  proof (cases "n \<le> int (length acc)")
    case True
    then have "nat n - length acc = 0" by simp
    with True show ?thesis by simp
  next
    case False
    then have "nat n - length acc = Suc (nat n - Suc (length acc))" by linarith
    with False 2 show ?thesis by simp
  qed
qed

lemma pick_from_take:
  assumes "0 < n" and "pick_from_locally_optimized ps h r n dd = (out, h')"
  shows "out = take (nat n) (accepted_of_stream dd ps (cells h r))"
  using pick_from_follows_rule[OF assms(1), of ps h r dd] assms(2)
  by (simp add: accept_by_rule_take)

section \<open>Properties of the ordering\<close>

text \<open>
  The ordering of the initial candidates is a stable sort by the score: among the
  candidates of one score the order of generation is kept, the result is ascending in
  the score, and it has the entries of the input. This is the part of claim C5 on the
  ordering; its part on two runs of the whole pipeline of tuner, scheduler and backend
  is about code and effects outside this development.
\<close>

lemma order_candidates_with_scores_stable:
  "filter (\<lambda>p. fst p = score) (order_candidates_with_scores candidates scoring_function model)
     = filter (\<lambda>p. fst p = score) (zip (scoring_function candidates model) candidates)"
  by (simp add: order_candidates_with_scores_def sort_key_stable)

lemma order_candidates_with_scores_sorted:
  "sorted (map fst (order_candidates_with_scores candidates scoring_function model))"
  by (simp add: order_candidates_with_scores_def)

lemma order_candidates_with_scores_same_entries:
  "set (order_candidates_with_scores candidates scoring_function model)
     = set (zip (scoring_function candidates model) candidates)
   \<and> length (order_candidates_with_scores candidates scoring_function model)
       = length (zip (scoring_function candidates model) candidates)"
  by (simp add: order_candidates_with_scores_def)

section \<open>Properties of one selection and of the update after a pick\<close>

lemma get_next_candidates_frame:
  assumes "exclusion_candidates alg < next_ref (registries e)"
    and "get_next_candidates alg n model e = (res, e1)"
  shows "cells (registries e1) (exclusion_candidates alg)
           = cells (registries e) (exclusion_candidates alg)"
    and "exclusion_candidates alg < next_ref (registries e1)"
    and "pending_candidate_state_transformer e1 = pending_candidate_state_transformer e"
    and "warnings e1 = warnings e"
  using assms pick_from_frame[of "exclusion_candidates alg" "registries e"]
  unfolding get_next_candidates_def Let_def
  by (auto split: prod.splits if_splits simp: less_Suc_eq)

lemma get_next_candidates_fresh:
  assumes "at_least_identical (duplicate_detector alg)"
    and "get_next_candidates alg n model e = (Inr inner, e1)"
  shows "distinct inner"
    and "set inner \<inter> excl_set (cells (registries e) (exclusion_candidates alg)) = {}"
  using assms pick_from_fresh[of "duplicate_detector alg" _ "registries e" "exclusion_candidates alg"]
  unfolding get_next_candidates_def Let_def
  by (auto split: prod.splits if_splits)

lemma get_next_candidates_length:
  assumes "0 < n" and "get_next_candidates alg n model e = (Inr inner, e1)"
  shows "int (length inner) \<le> n"
  using assms pick_from_length[of n _ "registries e" "exclusion_candidates alg"]
  unfolding get_next_candidates_def Let_def
  by (auto split: prod.splits if_splits)

lemma get_next_candidates_records:
  assumes "get_next_candidates alg n model e = (Inr inner, e1)"
  shows "excl_set (cells (registries e1) (next_ref (registries e)))
           = excl_set (cells (registries e) (exclusion_candidates alg)) \<union> set inner"
  using assms pick_from_records[of _ "registries e" "exclusion_candidates alg" n "duplicate_detector alg"]
  unfolding get_next_candidates_def Let_def
  by (auto split: prod.splits if_splits)


lemma get_next_candidates_error:
  "get_next_candidates alg n model e = (Inl err, e1) \<Longrightarrow> err = IndexError \<or> err = StopIteration"
  unfolding get_next_candidates_def Let_def by (auto split: prod.splits if_splits)

lemma get_next_candidates_take:
  assumes "0 < n" and "get_next_candidates alg n model e = (Inr inner, e1)"
  shows "inner = take (nat n)
           (accepted_of_stream (duplicate_detector alg)
              (fst (stream_of alg model (random_state e)
                      (cells (registries e) (exclusion_candidates alg))))
              (cells (registries e) (exclusion_candidates alg)))"
    and "random_state e1 = snd (stream_of alg model (random_state e)
                                  (cells (registries e) (exclusion_candidates alg)))"
  using assms(2)
  unfolding get_next_candidates_def stream_of_def Let_def order_candidates_def
  by (auto split: prod.splits if_splits dest: pick_from_take[OF assms(1)])

lemma after_pick_env:
  assumes "after_pick alg inner e = (res, e2)"
  shows "registries e2 = heap_add_all (registries e) (exclusion_candidates alg) inner"
    and "warnings e2 = warnings e"
  using assms unfolding after_pick_def Let_def by (auto split: option.splits)

lemma after_pick_result:
  assumes "after_pick alg inner e1 = (Inr model2, e2)"
  shows "\<exists>t. pending_candidate_state_transformer e1 = Some t
             \<and> pending_candidate_state_transformer e2
                 = Some (foldl (append_candidate alg) t inner)
             \<and> model2 = Some (transformer_model alg (foldl (append_candidate alg) t inner) True)"
  using assms unfolding after_pick_def Let_def by (auto split: option.splits)

lemma after_pick_error:
  "after_pick alg inner e1 = (Inl err, e2) \<Longrightarrow>
     err = AttributeError \<and> pending_candidate_state_transformer e1 = None"
  unfolding after_pick_def Let_def by (auto split: option.splits)

lemma after_pick_random_state:
  "after_pick alg inner e1 = (res, e2) \<Longrightarrow> random_state e2 = random_state e1"
  unfolding after_pick_def Let_def by (auto split: option.splits)

section \<open>One iteration of the outer loop\<close>

lemma outer_body_exhausted:
  "just_added \<Longrightarrow> config_space_exhausted (cells (registries e) (exclusion_candidates alg)) \<Longrightarrow>
   outer_body alg N M i cands just_added model e =
     (Inr (Break cands),
      e\<lparr>warnings := warnings e @
          [Warning_all_selected (configspace_size (cells (registries e) (exclusion_candidates alg)))
             (length cands) (num_requested_candidates alg)]\<rparr>)"
  by (simp add: outer_body_def)

lemma outer_body_elim [consumes 1, case_names exhausted gen_error upd_error no_add add]:
  assumes "outer_body alg N M i cands ja model e = (b, e')"
  obtains
    "ja" "config_space_exhausted (cells (registries e) (exclusion_candidates alg))"
      "b = Inr (Break cands)"
      "e' = e\<lparr>warnings := warnings e @
          [Warning_all_selected (configspace_size (cells (registries e) (exclusion_candidates alg)))
             (length cands) (num_requested_candidates alg)]\<rparr>"
  | err where "get_next_candidates alg M model e = (Inl err, e')" "b = Inl err"
  | inner e1 err where "get_next_candidates alg M model e = (Inr inner, e1)"
      "i < N - 1" "inner \<noteq> []" "after_pick alg inner e1 = (Inl err, e')" "b = Inl err"
  | inner e1 where "get_next_candidates alg M model e = (Inr inner, e1)"
      "\<not> (i < N - 1 \<and> inner \<noteq> [])"
      "if int (length inner) < M \<and> int (length (cands @ inner)) < num_requested_candidates alg
       then b = Inr (Break (cands @ inner))
            \<and> e' = e1\<lparr>warnings := warnings e1 @
                  [Warning_all_selected
                     (configspace_size (cells (registries e1) (exclusion_candidates alg)))
                     (length (cands @ inner)) (num_requested_candidates alg)]\<rparr>
       else b = Inr (Next (cands @ inner) False model) \<and> e' = e1"
  | inner e1 e2 model2 where "get_next_candidates alg M model e = (Inr inner, e1)"
      "i < N - 1" "inner \<noteq> []" "after_pick alg inner e1 = (Inr model2, e2)"
      "if int (length inner) < M \<and> int (length (cands @ inner)) < num_requested_candidates alg
       then b = Inr (Break (cands @ inner))
            \<and> e' = e2\<lparr>warnings := warnings e2 @
                  [Warning_all_selected
                     (configspace_size (cells (registries e2) (exclusion_candidates alg)))
                     (length (cands @ inner)) (num_requested_candidates alg)]\<rparr>
       else b = Inr (Next (cands @ inner) True model2) \<and> e' = e2"
proof (cases "ja \<and> config_space_exhausted (cells (registries e) (exclusion_candidates alg))")
  case True
  with assms that(1) show ?thesis by (simp add: outer_body_def)
next
  case False
  obtain r1 e1 where g: "get_next_candidates alg M model e = (r1, e1)" by force
  show ?thesis
  proof (cases r1)
    case (Inl err)
    with False g assms have "b = Inl err" "e' = e1"
      by (auto simp: outer_body_def Let_def)
    with that(2) g Inl show ?thesis by blast
  next
    case (Inr inner)
    show ?thesis
    proof (cases "i < N - 1 \<and> inner \<noteq> []")
      case no: False
      with False g Inr assms have
        "if int (length inner) < M \<and> int (length (cands @ inner)) < num_requested_candidates alg
         then b = Inr (Break (cands @ inner))
            \<and> e' = e1\<lparr>warnings := warnings e1 @
                  [Warning_all_selected
                     (configspace_size (cells (registries e1) (exclusion_candidates alg)))
                     (length (cands @ inner)) (num_requested_candidates alg)]\<rparr>
         else b = Inr (Next (cands @ inner) False model) \<and> e' = e1"
        by (auto simp: outer_body_def Let_def split: if_splits)
      with that(4)[of inner e1] g Inr no show ?thesis by blast
    next
      case yes: True
      obtain r2 e2 where ap: "after_pick alg inner e1 = (r2, e2)" by force
      show ?thesis
      proof (cases r2)
        case (Inl err)
        with False g Inr yes ap assms have "b = Inl err" "e' = e2"
          by (auto simp: outer_body_def Let_def)
        with that(3)[of inner e1 err] g Inr yes Inl ap show ?thesis by blast
      next
        case r2: (Inr model2)
        with False g Inr yes ap assms have
          "if int (length inner) < M \<and> int (length (cands @ inner)) < num_requested_candidates alg
           then b = Inr (Break (cands @ inner))
            \<and> e' = e2\<lparr>warnings := warnings e2 @
                  [Warning_all_selected
                     (configspace_size (cells (registries e2) (exclusion_candidates alg)))
                     (length (cands @ inner)) (num_requested_candidates alg)]\<rparr>
           else b = Inr (Next (cands @ inner) True model2) \<and> e' = e2"
          by (auto simp: outer_body_def Let_def split: if_splits)
        with that(5)[of inner e1 model2 e2] g Inr ap r2 yes show ?thesis by blast
      qed
    qed
  qed
qed

lemma outer_body_Break_fresh:
  assumes ali: "at_least_identical (duplicate_detector alg)"
    and inv: "inv_registry E0 (exclusion_candidates alg) cands e"
    and good: "distinct cands" "set cands \<inter> E0 = {}"
    and res: "outer_body alg N M i cands ja model e = (Inr (Break out), e')"
  shows "distinct out \<and> set out \<inter> E0 = {}"
proof (cases "ja \<and> config_space_exhausted (cells (registries e) (exclusion_candidates alg))")
  case True
  with res good show ?thesis by (auto simp: outer_body_def Let_def)
next
  case False
  obtain r1 e1 where g: "get_next_candidates alg M model e = (r1, e1)" by force
  with False res obtain inner where r1: "r1 = Inr inner"
    by (cases r1) (auto simp: outer_body_def Let_def)
  have out: "out = cands @ inner"
    using False res g r1
    by (auto simp: outer_body_def Let_def split: if_splits prod.splits sum.splits)
  from get_next_candidates_fresh[OF ali g[unfolded r1]] inv good out
  show ?thesis by (auto simp: inv_registry_def)
qed

lemma outer_body_Next_fresh:
  assumes ali: "at_least_identical (duplicate_detector alg)"
    and inv: "inv_registry E0 (exclusion_candidates alg) cands e"
    and good: "distinct cands" "set cands \<inter> E0 = {}"
    and res: "outer_body alg N M i cands ja model e = (Inr (Next out ja' model'), e')"
  shows "distinct out \<and> set out \<inter> E0 = {}
         \<and> (i < N - 1 \<longrightarrow> inv_registry E0 (exclusion_candidates alg) out e')"
proof -
  let ?r = "exclusion_candidates alg"
  have notex: "\<not> (ja \<and> config_space_exhausted (cells (registries e) ?r))"
    using res by (auto simp: outer_body_def Let_def)
  obtain r1 e1 where g: "get_next_candidates alg M model e = (r1, e1)" by force
  with notex res obtain inner where r1: "r1 = Inr inner"
    by (cases r1) (auto simp: outer_body_def Let_def)
  note g' = g[unfolded r1]
  have out: "out = cands @ inner"
    using notex res g r1
    by (auto simp: outer_body_def Let_def split: if_splits prod.splits sum.splits)
  have r: "?r < next_ref (registries e)" using inv by (simp add: inv_registry_def)
  note fr = get_next_candidates_frame[OF r g'] and fresh = get_next_candidates_fresh[OF ali g']
  have part1: "distinct out \<and> set out \<inter> E0 = {}"
    using fresh inv good out by (auto simp: inv_registry_def)
  have part2: "inv_registry E0 ?r out e'" if lt: "i < N - 1"
  proof (cases "length inner > 0")
    case True
    obtain r2 e2 where ap: "after_pick alg inner e1 = (r2, e2)" by force
    have e': "e' = e2"
      using notex res g r1 lt True ap
      by (auto simp: outer_body_def Let_def split: if_splits prod.splits sum.splits)
    from after_pick_env(1)[OF ap] fr inv out show ?thesis
      unfolding e' inv_registry_def by (auto simp: heap_add_all_same)
  next
    case False
    then have e': "e' = e1" and "inner = []"
      using notex res g r1
      by (auto simp: outer_body_def Let_def split: if_splits prod.splits sum.splits)
    with fr inv out show ?thesis unfolding inv_registry_def by auto
  qed
  from part1 part2 show ?thesis by blast
qed

lemma outer_body_last_frame:
  assumes "\<not> i < N - 1" and "exclusion_candidates alg < next_ref (registries e)"
    and "outer_body alg N M i cands ja model e = (b, e')"
  shows "cells (registries e') (exclusion_candidates alg)
           = cells (registries e) (exclusion_candidates alg)
         \<and> pending_candidate_state_transformer e' = pending_candidate_state_transformer e"
  using assms(3)
proof (cases rule: outer_body_elim)
  case exhausted
  then show ?thesis by simp
next
  case (gen_error err)
  from get_next_candidates_frame[OF assms(2) gen_error(1)] show ?thesis by simp
next
  case (upd_error inner e1 err)
  with assms(1) show ?thesis by simp
next
  case (no_add inner e1)
  from get_next_candidates_frame[OF assms(2) no_add(1)] no_add(3) show ?thesis
    by (auto split: if_splits)
next
  case (add inner e1 e2 model2)
  with assms(1) show ?thesis by simp
qed


lemma outer_body_model:
  assumes "outer_body alg N M i cands ja model e = (Inr (Next out ja' model'), e')"
    and "i < N - 1" and "out \<noteq> cands"
  shows "ja' \<and> (\<exists>t'. pending_candidate_state_transformer e' = Some t'
                     \<and> model' = Some (transformer_model alg t' True))"
  using assms(1)
proof (cases rule: outer_body_elim)
  case (no_add inner e1)
  with assms(2,3) show ?thesis by (auto split: if_splits)
next
  case (add inner e1 e2 model2)
  from add(5) have "ja'" "model' = model2" "e' = e2" by (auto split: if_splits)
  with after_pick_result[OF add(4)] show ?thesis by auto
qed simp_all

lemma outer_body_greedy:
  assumes N: "N = num_requested_candidates alg"
    and i: "i = int k" "k < nat N" and len: "length cands = k"
    and reg: "excl_set (cells (registries e) (exclusion_candidates alg)) = E0 \<union> set cands"
    and tr: "pending_candidate_state_transformer e = Some (foldl (append_candidate alg) t0 cands)"
    and r: "exclusion_candidates alg < next_ref (registries e)"
    and body: "outer_body alg N 1 i cands ja model e = (Inr oc, e')"
  shows "exclusion_candidates alg < next_ref (registries e')
         \<and> (case oc of
              Break out \<Rightarrow>
                out = cands
                \<and> excl_set (cells (registries e') (exclusion_candidates alg)) = E0 \<union> set cands
                \<and> pending_candidate_state_transformer e'
                    = Some (foldl (append_candidate alg) t0 cands)
            | Next out ja' model' \<Rightarrow>
                (\<exists>c. out = cands @ [c])
                \<and> excl_set (cells (registries e') (exclusion_candidates alg))
                    = E0 \<union> set (if i < N - 1 then out else cands)
                \<and> pending_candidate_state_transformer e'
                    = Some (foldl (append_candidate alg) t0 (if i < N - 1 then out else cands)))"
  using body
proof (cases rule: outer_body_elim)
  case exhausted
  with reg tr r show ?thesis by simp
next
  case (gen_error err)
  then show ?thesis by simp
next
  case (upd_error inner e1 err)
  then show ?thesis by simp
next
  case (no_add inner e1)
  note fr = get_next_candidates_frame[OF r no_add(1)]
  have le: "int (length inner) \<le> 1"
    using get_next_candidates_length[OF _ no_add(1)] by simp
  have kn: "int (length cands) < num_requested_candidates alg"
    using i len N by auto
  show ?thesis
  proof (cases inner)
    case Nil
    with no_add(3) kn have "oc = Break cands" and "registries e' = registries e1"
      and "pending_candidate_state_transformer e' = pending_candidate_state_transformer e1"
      by (auto split: if_splits)
    with fr reg tr show ?thesis by simp
  next
    case (Cons c rest)
    with le have inner: "inner = [c]" by simp
    with no_add(2) have last: "\<not> i < N - 1" by simp
    from no_add(3) inner have "oc = Next (cands @ [c]) False model" and "e' = e1"
      by (auto split: if_splits)
    with fr reg tr last show ?thesis by simp
  qed
next
  case (add inner e1 e2 model2)
  note fr = get_next_candidates_frame[OF r add(1)]
  have le: "int (length inner) \<le> 1"
    using get_next_candidates_length[OF _ add(1)] by simp
  with add(3) obtain c where inner: "inner = [c]"
    by (cases inner) auto
  from add(5) inner have oc: "oc = Next (cands @ [c]) True model2" and e': "e' = e2"
    by (auto split: if_splits)
  from after_pick_result[OF add(4)] fr(3) tr inner
  have t2: "pending_candidate_state_transformer e2
              = Some (foldl (append_candidate alg) t0 (cands @ [c]))"
    by simp
  have r2: "excl_set (cells (registries e2) (exclusion_candidates alg))
              = E0 \<union> set (cands @ [c])"
    using after_pick_env(1)[OF add(4)] fr(1) reg inner by (auto simp: heap_add_cells_same)
  have n2: "exclusion_candidates alg < next_ref (registries e2)"
    using after_pick_env(1)[OF add(4)] fr(2) by (simp add: heap_add_all_same)
  from oc e' t2 r2 n2 add(2) show ?thesis by simp
qed

section \<open>The outer loop\<close>

lemma range_Cons:
  assumes "i # rest = map int [k..<n]"
  shows "i = int k" and "rest = map int [Suc k..<n]" and "k < n"
proof -
  from assms have "k < n" by (cases "k < n") auto
  then have "[k..<n] = k # [Suc k..<n]" by (simp add: upt_conv_Cons)
  with assms show "i = int k" and "rest = map int [Suc k..<n]" and "k < n"
    using \<open>k < n\<close> by simp_all
qed

lemma outer_loop_fresh:
  assumes ali: "at_least_identical (duplicate_detector alg)"
  shows "its = map int [k..<nat N] \<Longrightarrow> inv_registry E0 (exclusion_candidates alg) cands e
     \<Longrightarrow> distinct cands \<Longrightarrow> set cands \<inter> E0 = {}
     \<Longrightarrow> outer_loop alg N M its cands ja model e = (Inr out, e')
     \<Longrightarrow> distinct out \<and> set out \<inter> E0 = {}"
proof (induction its arbitrary: k cands ja model e)
  case Nil
  then show ?case by simp
next
  case (Cons i rest)
  note rng = range_Cons[OF Cons.prems(1)]
  obtain b e1 where body: "outer_body alg N M i cands ja model e = (b, e1)" by force
  show ?case
  proof (cases b)
    case (Inl err)
    with body Cons.prems(5) show ?thesis by simp
  next
    case (Inr oc)
    show ?thesis
    proof (cases oc)
      case (Break out1)
      with Inr body Cons.prems(5) have "out1 = out" by simp
      with outer_body_Break_fresh[OF ali Cons.prems(2,3,4) body[unfolded Inr Break]]
      show ?thesis by simp
    next
      case (Next out1 ja1 m1)
      from outer_body_Next_fresh[OF ali Cons.prems(2,3,4) body[unfolded Inr Next]]
      have st: "distinct out1" "set out1 \<inter> E0 = {}"
        and nx: "i < N - 1 \<Longrightarrow> inv_registry E0 (exclusion_candidates alg) out1 e1"
        by blast+
      have loop: "outer_loop alg N M rest out1 ja1 m1 e1 = (Inr out, e')"
        using Cons.prems(5) body Inr Next by simp
      show ?thesis
      proof (cases rest)
        case Nil
        with loop st show ?thesis by simp
      next
        case (Cons j rest')
        with rng(2) have "Suc k < nat N" by (cases "Suc k < nat N") auto
        with rng(1) have "i < N - 1" by linarith
        from Cons.IH[OF rng(2) nx[OF this] st loop] show ?thesis .
      qed
    qed
  qed
qed


lemma outer_loop_greedy:
  assumes N: "N = num_requested_candidates alg"
  shows "its = map int [k..<nat N] \<Longrightarrow> k < nat N \<or> cands = [] \<Longrightarrow> length cands = k
     \<Longrightarrow> excl_set (cells (registries e) (exclusion_candidates alg)) = E0 \<union> set cands
     \<Longrightarrow> pending_candidate_state_transformer e
           = Some (foldl (append_candidate alg) t0 cands)
     \<Longrightarrow> exclusion_candidates alg < next_ref (registries e)
     \<Longrightarrow> outer_loop alg N 1 its cands ja model e = (Inr out, e')
     \<Longrightarrow> length out \<le> nat N
         \<and> excl_set (cells (registries e') (exclusion_candidates alg))
             = E0 \<union> set (take (nat N - 1) out)
         \<and> pending_candidate_state_transformer e'
             = Some (foldl (append_candidate alg) t0 (take (nat N - 1) out))"
proof (induction its arbitrary: k cands ja model e)
  case Nil
  then have "nat N \<le> k" by (cases "k < nat N") auto
  with Nil have "cands = []" by auto
  with Nil show ?case by simp
next
  case (Cons i rest)
  note rng = range_Cons[OF Cons.prems(1)]
  obtain b e1 where body: "outer_body alg N 1 i cands ja model e = (b, e1)" by force
  show ?case
  proof (cases b)
    case (Inl err)
    with body Cons.prems(7) show ?thesis by simp
  next
    case (Inr oc)
    note st = outer_body_greedy[OF N rng(1) rng(3) Cons.prems(3,4,5,6) body[unfolded Inr]]
    show ?thesis
    proof (cases oc)
      case (Break out1)
      with Inr body Cons.prems(7) have "out1 = out" "e1 = e'" by simp_all
      with st Break rng(3) Cons.prems(3) show ?thesis by simp
    next
      case (Next out1 ja1 m1)
      from st Next obtain c where out1: "out1 = cands @ [c]" by auto
      have loop: "outer_loop alg N 1 rest out1 ja1 m1 e1 = (Inr out, e')"
        using Cons.prems(7) body Inr Next by simp
      show ?thesis
      proof (cases rest)
        case Nil
        with rng(2,3) have last: "Suc k = nat N" by (cases "Suc k < nat N") auto
        with rng(1) have "\<not> i < N - 1" by linarith
        moreover from loop Nil have "out = out1" "e' = e1" by simp_all
        moreover have "take (nat N - 1) (cands @ [c]) = cands"
          using last Cons.prems(3) by simp
        ultimately show ?thesis using st Next out1 last Cons.prems(3) by simp
      next
        case (Cons j rest')
        with rng(2) have lt: "Suc k < nat N" by (cases "Suc k < nat N") auto
        with rng(1) have "i < N - 1" by linarith
        with st Next have
          "excl_set (cells (registries e1) (exclusion_candidates alg)) = E0 \<union> set out1"
          "pending_candidate_state_transformer e1
             = Some (foldl (append_candidate alg) t0 out1)"
          "exclusion_candidates alg < next_ref (registries e1)"
          by simp_all
        moreover have "length out1 = Suc k" using out1 Cons.prems(3) by simp
        ultimately show ?thesis
          using Cons.IH[OF rng(2) disjI1[OF lt] _ _ _ _ loop] by blast
      qed
    qed
  qed
qed

lemma outer_loop_no_assertion_error:
  "fst (outer_loop alg N M its cands ja model e) \<noteq> Inl (AssertionError msg)"
proof (induction its arbitrary: cands ja model e)
  case Nil
  then show ?case by simp
next
  case (Cons i rest)
  obtain b e1 where body: "outer_body alg N M i cands ja model e = (b, e1)" by force
  show ?case
  proof (cases b)
    case (Inl err)
    from body[unfolded Inl] have "err \<noteq> AssertionError msg"
    proof (cases rule: outer_body_elim)
      case (gen_error err')
      with get_next_candidates_error[OF gen_error(1)] show ?thesis by auto
    next
      case (upd_error inner e0 err')
      with after_pick_error[OF upd_error(4)] show ?thesis by auto
    qed (auto split: if_splits)
    with body Inl show ?thesis by simp
  next
    case (Inr oc)
    with body Cons.IH show ?thesis by (cases oc) simp_all
  qed
qed

lemma next_candidates_batch_unfold:
  assumes "\<not> greedy_batch_selection alg"
  shows "next_candidates alg e =
     (case outer_body alg 1 (num_requested_candidates alg) 0 [] True None e of
        (Inl err, e1) \<Rightarrow> (Inl err, e1)
      | (Inr (Break candidates1), e1) \<Rightarrow> (Inr candidates1, e1)
      | (Inr (Next candidates1 just_added1 model1), e1) \<Rightarrow> (Inr candidates1, e1))"
  using assms
  by (simp add: next_candidates_def num_outer_iterations_of_def num_inner_candidates_of_def
           split: prod.splits sum.splits outcome.splits)

text \<open>
  The outer loop against the selection in the words of the specification: from the
  head of any iteration, the loop returns the candidates it has followed by those of
  the remaining rounds of \<open>expected_run\<close>, on the registry of the caller, the state
  transformer, the model and the random state as they are there.
\<close>

lemma outer_loop_refines:
  assumes M: "1 \<le> M" and NM: "N * M = num_requested_candidates alg" and N0: "0 \<le> N"
  shows "its = map int [k..<nat N] \<Longrightarrow> k \<le> nat N \<Longrightarrow> int (length cands) = int k * M
     \<Longrightarrow> exclusion_candidates alg < next_ref (registries e)
     \<Longrightarrow> outer_loop alg N M its cands True model e = (Inr out, e')
     \<Longrightarrow> out = cands @ fst (expected_run alg (nat N - k) M
                              (cells (registries e) (exclusion_candidates alg))
                              (pending_candidate_state_transformer e) model (random_state e))
         \<and> (snd (expected_run alg (nat N - k) M
                    (cells (registries e) (exclusion_candidates alg))
                    (pending_candidate_state_transformer e) model (random_state e)) = Collected)
             = (int (length out) = num_requested_candidates alg)
         \<and> (snd (expected_run alg (nat N - k) M
                    (cells (registries e) (exclusion_candidates alg))
                    (pending_candidate_state_transformer e) model (random_state e))
               = Space_exhausted
             \<longrightarrow> config_space_exhausted
                   (cells (registries e') (exclusion_candidates alg)))"
proof (induction its arbitrary: k cands model e)
  case Nil
  then have "k = nat N" by (cases "k < nat N") auto
  with Nil N0 NM show ?case by auto
next
  case (Cons i rest)
  let ?r = "exclusion_candidates alg" and ?n = "num_requested_candidates alg"
  let ?E = "cells (registries e) ?r" and ?T = "pending_candidate_state_transformer e"
  let ?g = "random_state e"
  let ?acc = "accepted_of_stream (duplicate_detector alg) (fst (stream_of alg model ?g ?E)) ?E"
  note rng = range_Cons[OF Cons.prems(1)]
  have i: "0 \<le> i" "i < N" using rng by auto
  have len: "int (length cands) = i * M" using Cons.prems(3) rng(1) by simp
  have suc: "nat N - k = Suc (nat N - Suc k)" using rng(3) by simp
  have le: "(i + 1) * M \<le> ?n"
  proof -
    from i M have "(i + 1) * M \<le> N * M" by (intro mult_right_mono) auto
    with NM show ?thesis by simp
  qed
  have eqM: "(i + 1) * M = i * M + M" by (simp add: algebra_simps)
  have lt: "int (length cands) < ?n" using le eqM len M by linarith
  have M0: "0 < M" using M by simp
  obtain b e1 where body: "outer_body alg N M i cands True model e = (b, e1)" by force
  show ?case
  proof (cases "config_space_exhausted ?E")
    case True
    with body have "b = Inr (Break cands)" and e1: "registries e1 = registries e"
      by (auto simp: outer_body_exhausted)
    with body Cons.prems(5) have "out = cands" "e' = e1" by simp_all
    with True e1 lt suc show ?thesis by simp
  next
    case nex: False
    from body show ?thesis
    proof (cases rule: outer_body_elim)
      case exhausted
      with nex show ?thesis by simp
    next
      case (gen_error err)
      with body Cons.prems(5) show ?thesis by simp
    next
      case (upd_error inner e0 err)
      with body Cons.prems(5) show ?thesis by simp
    next
      case (no_add inner e0)
      note tk = get_next_candidates_take[OF M0 no_add(1)]
      have inner: "inner = take (nat M) ?acc" using tk(1) .
      show ?thesis
      proof (cases "int (length inner) < M \<and> int (length (cands @ inner)) < ?n")
        case True
        with no_add(3) have b: "b = Inr (Break (cands @ inner))" by simp
        with body Cons.prems(5) have out: "out = cands @ inner" by simp
        from True inner have short: "int (length ?acc) < M" and all: "inner = ?acc"
          by (auto simp: min_def split: if_splits)
        from True out have "int (length out) \<noteq> ?n" by simp
        with nex short all out suc show ?thesis by (simp add: Let_def)
      next
        case False
        with no_add(3) have b: "b = Inr (Next (cands @ inner) False model)" and e1: "e1 = e0"
          by simp_all
        have li: "int (length inner) = M"
        proof -
          have "int (length inner) \<le> M" using get_next_candidates_length[OF M0 no_add(1)] .
          with False len le eqM show ?thesis by auto
        qed
        with M0 have "inner \<noteq> []" by auto
        with no_add(2) have last: "\<not> i < N - 1" by simp
        with rng(1,3) have sk: "Suc k = nat N" by linarith
        with rng(2) have "rest = []" by simp
        with body b Cons.prems(5) have out: "out = cands @ inner" by simp
        have full: "\<not> int (length ?acc) < M" using li inner by (auto simp: min_def split: if_splits)
        have "int (length out) = ?n"
        proof -
          have "int (length out) = (i + 1) * M" using out len li eqM by simp
          moreover have "i + 1 = N" using sk rng(1) N0 by linarith
          ultimately show ?thesis using NM by simp
        qed
        with nex full inner out suc sk show ?thesis by (simp add: Let_def)
      qed
    next
      case (add inner e0 e2 model2)
      note tk = get_next_candidates_take[OF M0 add(1)]
      note fr = get_next_candidates_frame[OF Cons.prems(4) add(1)]
      have inner: "inner = take (nat M) ?acc" using tk(1) .
      show ?thesis
      proof (cases "int (length inner) < M \<and> int (length (cands @ inner)) < ?n")
        case True
        with add(5) have b: "b = Inr (Break (cands @ inner))" by simp
        with body Cons.prems(5) have out: "out = cands @ inner" by simp
        from True inner have short: "int (length ?acc) < M" and all: "inner = ?acc"
          by (auto simp: min_def split: if_splits)
        from True out have "int (length out) \<noteq> ?n" by simp
        with nex short all out suc show ?thesis by (simp add: Let_def)
      next
        case False
        with add(5) have b: "b = Inr (Next (cands @ inner) True model2)" and e1: "e1 = e2"
          by simp_all
        have li: "int (length inner) = M"
        proof -
          have "int (length inner) \<le> M" using get_next_candidates_length[OF M0 add(1)] .
          with False len le eqM show ?thesis by auto
        qed
        have full: "\<not> int (length ?acc) < M" using li inner by (auto simp: min_def split: if_splits)
        from after_pick_result[OF add(4)] fr(3)
        obtain t where t: "?T = Some t"
          and t2: "pending_candidate_state_transformer e2
                     = Some (foldl (append_candidate alg) t inner)"
          and m2: "model2 = Some (transformer_model alg (foldl (append_candidate alg) t inner) True)"
          by auto
        have reg2: "cells (registries e2) ?r = fold (\<lambda>c E. ExclusionList_add E c) inner ?E"
          using after_pick_env(1)[OF add(4)] fr(1) by (simp add: heap_add_all_fold)
        have r2: "?r < next_ref (registries e2)"
          using after_pick_env(1)[OF add(4)] fr(2) by (simp add: heap_add_all_same)
        have g2: "random_state e2 = snd (stream_of alg model ?g ?E)"
          using after_pick_random_state[OF add(4)] tk(2) by simp
        have loop: "outer_loop alg N M rest (cands @ inner) True model2 e2 = (Inr out, e')"
          using Cons.prems(5) body b e1 by simp
        have l1: "int (length (cands @ inner)) = int (Suc k) * M"
          using len li rng(1) by (simp add: algebra_simps)
        from rng(3) have k1: "Suc k \<le> nat N" by simp
        note IH = Cons.IH[OF rng(2) k1 l1 r2 loop]
        from IH nex full inner suc t t2 m2 reg2 g2 show ?thesis
          by (simp add: Let_def)
      qed
    qed
  qed
qed

lemma next_candidates_refines:
  assumes n: "greedy_batch_selection alg \<or> 1 \<le> num_requested_candidates alg"
    and r: "exclusion_candidates alg < next_ref (registries e)"
    and res: "fst (next_candidates alg e) = Inr candidates"
  shows "candidates = fst (expected_selection alg
                             (cells (registries e) (exclusion_candidates alg))
                             (pending_candidate_state_transformer e) (random_state e))"
    and "0 \<le> num_requested_candidates alg \<Longrightarrow>
         (snd (expected_selection alg
                 (cells (registries e) (exclusion_candidates alg))
                 (pending_candidate_state_transformer e) (random_state e)) = Collected)
           = (int (length candidates) = num_requested_candidates alg)"
    and "snd (expected_selection alg
                 (cells (registries e) (exclusion_candidates alg))
                 (pending_candidate_state_transformer e) (random_state e)) = Space_exhausted
         \<Longrightarrow> config_space_exhausted
               (cells (registries (snd (next_candidates alg e))) (exclusion_candidates alg))"
proof -
  let ?N = "num_outer_iterations_of alg" and ?M = "num_inner_candidates_of alg"
  let ?n = "num_requested_candidates alg"
  let ?X = "expected_selection alg (cells (registries e) (exclusion_candidates alg))
              (pending_candidate_state_transformer e) (random_state e)"
  obtain e' where nc: "next_candidates alg e = (Inr candidates, e')"
    using res by (cases "next_candidates alg e") simp
  then have loop: "outer_loop alg ?N ?M (map int [0..<nat ?N]) [] True None e
                     = (Inr candidates, e')"
    by (auto simp: next_candidates_def Let_def split: if_splits)
  have all: "candidates = fst ?X
             \<and> (0 \<le> ?n \<longrightarrow> (snd ?X = Collected) = (int (length candidates) = ?n))
             \<and> (snd ?X = Space_exhausted
                 \<longrightarrow> config_space_exhausted (cells (registries e') (exclusion_candidates alg)))"
  proof (cases "0 \<le> ?N")
    case True
    have M: "1 \<le> ?M" and NM: "?N * ?M = ?n"
      using n by (auto simp: num_outer_iterations_of_def num_inner_candidates_of_def)
    have X: "?X = expected_run alg (nat ?N - 0) ?M
                    (cells (registries e) (exclusion_candidates alg))
                    (pending_candidate_state_transformer e) None (random_state e)"
      by (simp add: expected_selection_def num_outer_iterations_of_def
                    num_inner_candidates_of_def)
    from outer_loop_refines[OF M NM True refl _ _ r loop] show ?thesis
      unfolding X by simp
  next
    case False
    then have g: "greedy_batch_selection alg" and neg: "?n < 0"
      by (auto simp: num_outer_iterations_of_def split: if_splits)
    from False loop have "candidates = []" and "e' = e" by simp_all
    with g neg show ?thesis by (simp add: expected_selection_def)
  qed
  from all nc show "candidates = fst ?X"
    and "0 \<le> ?n \<Longrightarrow> (snd ?X = Collected) = (int (length candidates) = ?n)"
    and "snd ?X = Space_exhausted
         \<Longrightarrow> config_space_exhausted
               (cells (registries (snd (next_candidates alg e))) (exclusion_candidates alg))"
    by simp_all
qed

section \<open>The claims on the candidate algorithm\<close>

text \<open>
  Claim C1. For every call of \<open>next_candidates\<close> with a duplicate detector that performs
  detection (it reports at least the members of the registry), no configuration of the
  returned list is in the exclusion registry as it stood at the call, and no two
  entries of the returned list are equal. The registry of the caller is an allocated
  cell of the store.
\<close>

theorem next_candidates_excluded_and_distinct:
  assumes "at_least_identical (duplicate_detector alg)"
    and "exclusion_candidates alg < next_ref (registries e)"
    and "fst (next_candidates alg e) = Inr candidates"
  shows "distinct candidates \<and>
         (\<forall>c \<in> set candidates.
            \<not> ExclusionList_contains (cells (registries e) (exclusion_candidates alg)) c)"
proof -
  let ?N = "num_outer_iterations_of alg" and ?M = "num_inner_candidates_of alg"
  let ?E0 = "excl_set (cells (registries e) (exclusion_candidates alg))"
  obtain e' where nc: "next_candidates alg e = (Inr candidates, e')"
    using assms(3) by (cases "next_candidates alg e") simp
  then have loop: "outer_loop alg ?N ?M (map int [0..<nat ?N]) [] True None e
                     = (Inr candidates, e')"
    by (auto simp: next_candidates_def Let_def split: if_splits)
  have "inv_registry ?E0 (exclusion_candidates alg) [] e"
    using assms(2) by (simp add: inv_registry_def)
  from outer_loop_fresh[OF assms(1) refl this _ _ loop]
  have "distinct candidates \<and> set candidates \<inter> ?E0 = {}" by simp
  then show ?thesis by (auto simp: ExclusionList_contains_def)
qed

theorem next_candidates_excluded_and_distinct_witness:
  "at_least_identical (duplicate_detector (demo_alg True 2))
   \<and> exclusion_candidates (demo_alg True 2)
       < next_ref (registries (demo_env {0} (Some 5) (Some [])))
   \<and> fst (next_candidates (demo_alg True 2) (demo_env {0} (Some 5) (Some []))) = Inr [1, 2]
   \<and> distinct [1 :: nat, 2]
   \<and> \<not> ExclusionList_contains
         (cells (registries (demo_env {0} (Some 5) (Some [])))
            (exclusion_candidates (demo_alg True 2))) 1
   \<and> \<not> ExclusionList_contains
         (cells (registries (demo_env {0} (Some 5) (Some [])))
            (exclusion_candidates (demo_alg True 2))) 2"
proof -
  have h1: "at_least_identical (duplicate_detector (demo_alg True 2))"
    by (simp add: demo_alg_def at_least_identical_def DuplicateDetectorIdentical_def)
  have h2: "exclusion_candidates (demo_alg True 2)
              < next_ref (registries (demo_env {0} (Some 5) (Some [])))"
    by (simp add: demo_alg_def demo_env_def demo_heap_def)
  have h3: "fst (next_candidates (demo_alg True 2) (demo_env {0} (Some 5) (Some [])))
              = Inr [1, 2]"
    by code_simp
  from next_candidates_excluded_and_distinct[OF h1 h2 h3] h1 h2 h3
  show ?thesis by simp
qed




text \<open>
  Claim C3, on the final selection. The source tests \<open>len(result) == num_candidates\<close>
  only after a pair has been handled, so with \<open>num_candidates = 0\<close> (reached from
  \<open>next_candidates\<close> in batch mode with \<open>num_requested_candidates = 0\<close>) the selection
  never stops early: it consumes the whole stream and returns every accepted candidate,
  where the rule of the specification returns none. Lemma \<open>pick_from_follows_rule\<close>
  shows that the source follows the rule whenever at least one candidate is requested.
\<close>

theorem pick_zero_requested:
  "fst (pick_from_locally_optimized [(1, 11), (2, 12)] (demo_heap {} None) 0 0
          DuplicateDetectorIdentical) = [11, 12 :: nat]
   \<and> accept_by_rule DuplicateDetectorIdentical 0 [(1, 11), (2, 12 :: nat)]
       (cells (demo_heap {} None) 0) [] = []
   \<and> num_requested_candidates (demo_alg False 0) = 0
   \<and> fst (next_candidates (demo_alg False 0) (demo_env {0} (Some 5) None)) = Inr [1, 2]"
  by code_simp

text \<open>
  Claim C4 says that in greedy mode every pick is added to the registry and appended
  to the state transformer, and that the call fails without a state transformer. In
  the source neither holds for the last outer iteration: with one candidate requested
  the greedy call succeeds without a state transformer, and with two requested the
  second pick is returned without being added to the registry or appended.
\<close>

theorem greedy_last_pick_not_recorded:
  "greedy_batch_selection (demo_alg True 1)
   \<and> pending_candidate_state_transformer (demo_env {0} (Some 5) None) = None
   \<and> fst (next_candidates (demo_alg True 1) (demo_env {0} (Some 5) None)) = Inr [1]
   \<and> greedy_batch_selection (demo_alg True 2)
   \<and> fst (next_candidates (demo_alg True 2) (demo_env {0} (Some 5) (Some []))) = Inr [1, 2]
   \<and> \<not> ExclusionList_contains
         (cells (registries
            (snd (next_candidates (demo_alg True 2) (demo_env {0} (Some 5) (Some []))))) 0) 2
   \<and> pending_candidate_state_transformer
         (snd (next_candidates (demo_alg True 2) (demo_env {0} (Some 5) (Some []))))
       = Some [1]"
  by code_simp

text \<open>
  Claim C4, as the source has it. The call fails its assertion exactly when it is
  greedy, the number of candidates requested is not 1 and no state transformer was
  passed. A greedy call that returns gives the candidates of \<open>num_requested_candidates\<close>
  rounds of the single-candidate selection of \<open>expected_run\<close>, in which each pick is
  added to the registry and appended to the state transformer, and the model of the
  state transformer, asked with \<open>skip_optimization=True\<close>, is the model of the next
  round (the rounds end early when the space is exhausted or a stream yields nothing).
  A batch call that returns gives the candidates of one round. On the objects of the
  caller, a greedy call has added to the registry and appended to the state transformer
  every pick but the one of the last of the \<open>num_requested_candidates\<close> iterations.
\<close>

theorem greedy_selection_effects:
  "((fst (next_candidates alg e)
       = Inl (AssertionError
               ''Need pending_candidate_state_transformer for greedy batch selection''))
     = (greedy_batch_selection alg \<and> num_requested_candidates alg \<noteq> 1
        \<and> pending_candidate_state_transformer e = None))
   \<and> (\<forall>candidates.
         greedy_batch_selection alg
         \<and> exclusion_candidates alg < next_ref (registries e)
         \<and> fst (next_candidates alg e) = Inr candidates
         \<longrightarrow> candidates
               = fst (expected_run alg (nat (num_requested_candidates alg)) 1
                        (cells (registries e) (exclusion_candidates alg))
                        (pending_candidate_state_transformer e) None (random_state e)))
   \<and> (\<forall>candidates.
         \<not> greedy_batch_selection alg \<and> 1 \<le> num_requested_candidates alg
         \<and> exclusion_candidates alg < next_ref (registries e)
         \<and> fst (next_candidates alg e) = Inr candidates
         \<longrightarrow> candidates
               = fst (expected_run alg 1 (num_requested_candidates alg)
                        (cells (registries e) (exclusion_candidates alg))
                        (pending_candidate_state_transformer e) None (random_state e)))
   \<and> (\<forall>t candidates.
         greedy_batch_selection alg
         \<and> exclusion_candidates alg < next_ref (registries e)
         \<and> pending_candidate_state_transformer e = Some t
         \<and> fst (next_candidates alg e) = Inr candidates
         \<longrightarrow> length candidates \<le> nat (num_requested_candidates alg)
             \<and> excl_set (cells (registries (snd (next_candidates alg e)))
                           (exclusion_candidates alg))
                 = excl_set (cells (registries e) (exclusion_candidates alg))
                     \<union> set (take (nat (num_requested_candidates alg) - 1) candidates)
             \<and> pending_candidate_state_transformer (snd (next_candidates alg e))
                 = Some (foldl (append_candidate alg) t
                           (take (nat (num_requested_candidates alg) - 1) candidates)))"
proof -
  let ?n = "num_requested_candidates alg"
  let ?msg = "''Need pending_candidate_state_transformer for greedy batch selection''"
  have p1: "num_outer_iterations_of alg = (if greedy_batch_selection alg then ?n else 1)"
    by (simp add: num_outer_iterations_of_def)
  have p2: "num_inner_candidates_of alg = (if greedy_batch_selection alg then 1 else ?n)"
    by (simp add: num_inner_candidates_of_def)
  have p3: "(fst (next_candidates alg e) = Inl (AssertionError ?msg))
       = (greedy_batch_selection alg \<and> ?n \<noteq> 1 \<and> pending_candidate_state_transformer e = None)"
    using outer_loop_no_assertion_error[of alg "num_outer_iterations_of alg"
            "num_inner_candidates_of alg" _ "[]" True None e ?msg]
    by (auto simp: next_candidates_def Let_def p1)
  have g: "candidates
             = fst (expected_run alg (nat ?n) 1
                      (cells (registries e) (exclusion_candidates alg))
                      (pending_candidate_state_transformer e) None (random_state e))"
    if "greedy_batch_selection alg"
      and "exclusion_candidates alg < next_ref (registries e)"
      and "fst (next_candidates alg e) = Inr candidates"
    for candidates
    using next_candidates_refines(1)[OF disjI1[OF that(1)] that(2,3)] that(1)
    by (simp add: expected_selection_def)
  have b: "candidates
             = fst (expected_run alg 1 ?n
                      (cells (registries e) (exclusion_candidates alg))
                      (pending_candidate_state_transformer e) None (random_state e))"
    if "\<not> greedy_batch_selection alg" and "1 \<le> ?n"
      and "exclusion_candidates alg < next_ref (registries e)"
      and "fst (next_candidates alg e) = Inr candidates"
    for candidates
    using next_candidates_refines(1)[OF disjI2[OF that(2)] that(3,4)] that(1)
    by (simp add: expected_selection_def)
  have p4: "length candidates \<le> nat ?n
             \<and> excl_set (cells (registries (snd (next_candidates alg e)))
                           (exclusion_candidates alg))
                 = excl_set (cells (registries e) (exclusion_candidates alg))
                     \<union> set (take (nat ?n - 1) candidates)
             \<and> pending_candidate_state_transformer (snd (next_candidates alg e))
                 = Some (foldl (append_candidate alg) t (take (nat ?n - 1) candidates))"
    if gr: "greedy_batch_selection alg"
      and r: "exclusion_candidates alg < next_ref (registries e)"
      and t: "pending_candidate_state_transformer e = Some t"
      and res: "fst (next_candidates alg e) = Inr candidates"
    for t candidates
  proof -
    obtain e' where nc: "next_candidates alg e = (Inr candidates, e')"
      using res by (cases "next_candidates alg e") simp
    then have loop: "outer_loop alg ?n 1 (map int [0..<nat ?n]) [] True None e
                       = (Inr candidates, e')"
      using gr by (auto simp: next_candidates_def Let_def p1 p2 split: if_splits)
    from outer_loop_greedy[OF refl refl _ _ _ _ r loop,
           where ?t0.0 = t
             and ?E0.0 = "excl_set (cells (registries e) (exclusion_candidates alg))"] t nc
    show ?thesis by simp
  qed
  from p3 g b p4 show ?thesis by blast
qed

theorem greedy_selection_effects_witness:
  "greedy_batch_selection (demo_alg_model_scored True 2)
   \<and> exclusion_candidates (demo_alg_model_scored True 2)
       < next_ref (registries (demo_env {0} (Some 5) (Some [])))
   \<and> pending_candidate_state_transformer (demo_env {0} (Some 5) (Some [])) = Some []
   \<and> fst (next_candidates (demo_alg_model_scored True 2) (demo_env {0} (Some 5) (Some [])))
       = Inr [1, 5]
   \<and> fst (expected_run (demo_alg_model_scored True 2) 2 1
             \<lparr>excl_set = {0}, configspace_size = Some 5\<rparr> (Some []) None 0) = [1, 5]
   \<and> fst (expected_run (demo_alg_model_scored True 2) 1 1
             \<lparr>excl_set = {0, 1}, configspace_size = Some 5\<rparr> (Some [1]) None 3) = [3]
   \<and> excl_set (cells (registries
         (snd (next_candidates (demo_alg_model_scored True 2)
                 (demo_env {0} (Some 5) (Some []))))) 0)
       = {0, 1}
   \<and> pending_candidate_state_transformer
         (snd (next_candidates (demo_alg_model_scored True 2)
                 (demo_env {0} (Some 5) (Some []))))
       = Some [1]
   \<and> fst (next_candidates (demo_alg_model_scored True 2) (demo_env {0} (Some 5) None))
       = Inl (AssertionError
               ''Need pending_candidate_state_transformer for greedy batch selection'')"
proof -
  let ?alg = "demo_alg_model_scored True 2" and ?e = "demo_env {0} (Some 5) (Some [])"
  have h1: "greedy_batch_selection ?alg" by (simp add: demo_alg_model_scored_def)
  have h2: "exclusion_candidates ?alg < next_ref (registries ?e)"
    by (simp add: demo_alg_model_scored_def demo_env_def demo_heap_def)
  have h3: "pending_candidate_state_transformer ?e = Some []"
    by (simp add: demo_env_def)
  have h4: "fst (next_candidates ?alg ?e) = Inr [1, 5]" by code_simp
  have h5: "greedy_batch_selection ?alg \<and> num_requested_candidates ?alg \<noteq> 1
            \<and> pending_candidate_state_transformer (demo_env {0} (Some 5) None) = None"
    by (simp add: demo_alg_model_scored_def demo_env_def)
  have other: "fst (expected_run ?alg 1 1
             \<lparr>excl_set = {0, 1}, configspace_size = Some 5\<rparr> (Some [1]) None 3) = [3]"
    by code_simp
  have env: "cells (registries ?e) (exclusion_candidates ?alg)
               = \<lparr>excl_set = {0}, configspace_size = Some 5\<rparr>"
    "cells (registries ?e) 0 = \<lparr>excl_set = {0}, configspace_size = Some 5\<rparr>"
    "random_state ?e = 0" "nat (num_requested_candidates ?alg) = 2"
    "exclusion_candidates ?alg = 0"
    by (simp_all add: demo_alg_model_scored_def demo_env_def demo_heap_def)
  note T = greedy_selection_effects[of ?alg ?e]
  from T h1 h2 h4
  have a: "[1, 5] = fst (expected_run ?alg (nat (num_requested_candidates ?alg)) 1
                        (cells (registries ?e) (exclusion_candidates ?alg))
                        (pending_candidate_state_transformer ?e) None (random_state ?e))"
    by blast
  from T h1 h2 h3 h4
  have b: "excl_set (cells (registries (snd (next_candidates ?alg ?e)))
                        (exclusion_candidates ?alg))
            = excl_set (cells (registries ?e) (exclusion_candidates ?alg))
                \<union> set (take (nat (num_requested_candidates ?alg) - 1) [1, 5])"
    and c: "pending_candidate_state_transformer (snd (next_candidates ?alg ?e))
            = Some (foldl (append_candidate ?alg) []
                      (take (nat (num_requested_candidates ?alg) - 1) [1, 5]))"
    by blast+
  from greedy_selection_effects[of ?alg "demo_env {0} (Some 5) None"] h5
  have d: "fst (next_candidates ?alg (demo_env {0} (Some 5) None))
       = Inl (AssertionError
               ''Need pending_candidate_state_transformer for greedy batch selection'')"
    by blast
  have a': "fst (expected_run ?alg 2 1 \<lparr>excl_set = {0}, configspace_size = Some 5\<rparr>
                   (Some []) None 0) = [1, 5]"
    using a unfolding env h3 by simp
  have b': "excl_set (cells (registries (snd (next_candidates ?alg ?e))) 0) = {0, 1}"
    using b unfolding env by (auto simp: demo_alg_model_scored_def)
  have c': "pending_candidate_state_transformer (snd (next_candidates ?alg ?e)) = Some [1]"
    using c unfolding env by (simp add: demo_alg_model_scored_def)
  from a' b' c' d h1 h2 h3 h4 other show ?thesis by blast
qed



text \<open>
  Claim C10. In batch mode (\<open>greedy_batch_selection = False\<close>, one outer iteration),
  \<open>next_candidates\<close> leaves the registry of the caller as it was, whether it returns or
  raises; the candidates accepted by the selection are recorded in the copy, the cell
  allocated by the call.
\<close>

theorem batch_selection_leaves_registry:
  assumes "\<not> greedy_batch_selection alg"
    and "exclusion_candidates alg < next_ref (registries e)"
  shows "cells (registries (snd (next_candidates alg e))) (exclusion_candidates alg)
           = cells (registries e) (exclusion_candidates alg)
         \<and> (\<forall>candidates. fst (next_candidates alg e) = Inr candidates
               \<and> \<not> config_space_exhausted (cells (registries e) (exclusion_candidates alg))
             \<longrightarrow> excl_set (cells (registries (snd (next_candidates alg e)))
                              (next_ref (registries e)))
                   = excl_set (cells (registries e) (exclusion_candidates alg))
                       \<union> set candidates)"
proof -
  let ?n = "num_requested_candidates alg"
  obtain b e' where body: "outer_body alg 1 ?n 0 [] True None e = (b, e')" by force
  have snd_eq: "snd (next_candidates alg e) = e'"
    using body by (simp add: next_candidates_batch_unfold[OF assms(1)]
                        split: sum.splits outcome.splits)
  have frame: "cells (registries e') (exclusion_candidates alg)
                 = cells (registries e) (exclusion_candidates alg)"
    using outer_body_last_frame[OF _ assms(2) body] by simp
  have copy: "excl_set (cells (registries e') (next_ref (registries e)))
                = excl_set (cells (registries e) (exclusion_candidates alg)) \<union> set candidates"
    if res: "fst (next_candidates alg e) = Inr candidates"
      and nex: "\<not> config_space_exhausted (cells (registries e) (exclusion_candidates alg))"
    for candidates
    using body
  proof (cases rule: outer_body_elim)
    case exhausted
    with nex show ?thesis by simp
  next
    case (gen_error err)
    with res body show ?thesis
      by (simp add: next_candidates_batch_unfold[OF assms(1)])
  next
    case (upd_error inner e1 err)
    then show ?thesis by simp
  next
    case (no_add inner e1)
    from no_add(3) res body have "candidates = inner" and "registries e' = registries e1"
      by (auto simp: next_candidates_batch_unfold[OF assms(1)] split: if_splits)
    with get_next_candidates_records[OF no_add(1)] show ?thesis by simp
  next
    case (add inner e1 e2 model2)
    then show ?thesis by simp
  qed
  from frame copy show ?thesis unfolding snd_eq by blast
qed

theorem batch_selection_leaves_registry_witness:
  "\<not> greedy_batch_selection (demo_alg False 2)
   \<and> exclusion_candidates (demo_alg False 2)
       < next_ref (registries (demo_env {0} (Some 5) None))
   \<and> fst (next_candidates (demo_alg False 2) (demo_env {0} (Some 5) None)) = Inr [1, 2]
   \<and> \<not> config_space_exhausted (cells (registries (demo_env {0} (Some 5) None)) 0)
   \<and> cells (registries (snd (next_candidates (demo_alg False 2) (demo_env {0} (Some 5) None)))) 0
       = \<lparr>excl_set = {0}, configspace_size = Some 5\<rparr>
   \<and> excl_set (cells (registries
         (snd (next_candidates (demo_alg False 2) (demo_env {0} (Some 5) None)))) 1)
       = {0, 1, 2}"
proof -
  have h1: "\<not> greedy_batch_selection (demo_alg False 2)"
    by (simp add: demo_alg_def)
  have h2: "exclusion_candidates (demo_alg False 2)
              < next_ref (registries (demo_env {0} (Some 5) None))"
    by (simp add: demo_alg_def demo_env_def demo_heap_def)
  have h3: "fst (next_candidates (demo_alg False 2) (demo_env {0} (Some 5) None)) = Inr [1, 2]"
    by code_simp
  have h4: "\<not> config_space_exhausted
               (cells (registries (demo_env {0} (Some 5) None))
                  (exclusion_candidates (demo_alg False 2)))"
    by (simp add: demo_alg_def demo_env_def demo_heap_def config_space_exhausted_def)
  from batch_selection_leaves_registry[OF h1 h2] h3 h4
  have "cells (registries (snd (next_candidates (demo_alg False 2) (demo_env {0} (Some 5) None))))
          (exclusion_candidates (demo_alg False 2))
        = cells (registries (demo_env {0} (Some 5) None)) (exclusion_candidates (demo_alg False 2))"
    and "excl_set (cells (registries
           (snd (next_candidates (demo_alg False 2) (demo_env {0} (Some 5) None))))
             (next_ref (registries (demo_env {0} (Some 5) None))))
         = excl_set (cells (registries (demo_env {0} (Some 5) None))
             (exclusion_candidates (demo_alg False 2))) \<union> set [1, 2]"
    by blast+
  with h1 h2 h3 h4 show ?thesis
    by (auto simp: demo_alg_def demo_env_def demo_heap_def)
qed

section \<open>The claim on the lazy local optimization\<close>

lemma lazily_loop_fst:
  "set (map fst (lazily_loop opt model considered cands)) = set cands - excl_set considered
   \<and> distinct (map fst (lazily_loop opt model considered cands))"
  by (induction opt model considered cands rule: lazily_loop.induct)
     (auto simp: ExclusionList_contains_def ExclusionList_add_def)

lemma lazily_loop_snd:
  "map snd (lazily_loop opt model considered cands)
     = map (\<lambda>c. opt c model) (map fst (lazily_loop opt model considered cands))"
  by (induction opt model considered cands rule: lazily_loop.induct) auto

text \<open>
  Claim C9. The lazy producer deduplicates its input: whatever the list of initial
  candidates, the originals of the produced pairs are pairwise distinct, they are the
  configurations of the input, and each pair holds the local optimum of its original,
  so every distinct configuration is optimized once.
\<close>

theorem lazily_locally_optimize_deduplicates:
  "distinct (map fst (lazily_locally_optimize candidates optimize hp_ranges model))
   \<and> set (map fst (lazily_locally_optimize candidates optimize hp_ranges model))
       = set candidates
   \<and> map snd (lazily_locally_optimize candidates optimize hp_ranges model)
       = map (\<lambda>c. optimize c model)
           (map fst (lazily_locally_optimize candidates optimize hp_ranges model))"
  using lazily_loop_fst[of optimize model "ExclusionList_empty_list hp_ranges" candidates]
        lazily_loop_snd[of optimize model "ExclusionList_empty_list hp_ranges" candidates]
  by (simp add: lazily_locally_optimize_def ExclusionList_empty_list_def)

section \<open>The claim on the maximum resource level\<close>

lemma infer_max_t_None:
  "(\<forall>name \<in> set names. \<not> qualifies configspace name) \<Longrightarrow> infer_max_t names configspace = None"
  by (induction names) (auto simp: qualifies_def split: option.splits hp_value.splits)

lemma hyperband_max_t_test_cases:
  "HyperbandScheduler_max_t None
     [''epochs'' \<mapsto> Fixed_int 15, ''max_t'' \<mapsto> Fixed_int 14, ''max_epochs'' \<mapsto> Fixed_int 13,
      ''blurb'' \<mapsto> Domain] = Inr 15"
  "HyperbandScheduler_max_t None
     [''max_t'' \<mapsto> Fixed_int 14, ''max_epochs'' \<mapsto> Fixed_int 13, ''blurb'' \<mapsto> Domain] = Inr 14"
  "HyperbandScheduler_max_t None [''max_epochs'' \<mapsto> Fixed_int 13, ''blurb'' \<mapsto> Domain] = Inr 13"
  "HyperbandScheduler_max_t None
     [''epochs'' \<mapsto> Domain, ''max_t'' \<mapsto> Fixed_int 14, ''max_epochs'' \<mapsto> Fixed_int 13,
      ''blurb'' \<mapsto> Domain] = Inr 14"
  "HyperbandScheduler_max_t None
     [''epochs'' \<mapsto> Domain, ''max_t'' \<mapsto> Domain, ''max_epochs'' \<mapsto> Fixed_int 13,
      ''blurb'' \<mapsto> Domain] = Inr 13"
  "HyperbandScheduler_max_t None [''blurb'' \<mapsto> Domain] = Inl Configuration_error"
  "HyperbandScheduler_max_t None
     [''epochs'' \<mapsto> Domain, ''max_t'' \<mapsto> Domain, ''max_epochs'' \<mapsto> Domain,
      ''blurb'' \<mapsto> Domain] = Inl Configuration_error"
  "HyperbandScheduler_max_t (Some 10) configspace = Inr 10"
  by (simp_all add: HyperbandScheduler_max_t_def max_t_names_def)

text \<open>
  Claim C7. Without an explicit \<open>max_t\<close>, the construction infers it from the
  configuration space: 15 for the space with \<open>epochs = 15\<close>, \<open>max_t = 14\<close> and
  \<open>max_epochs = 13\<close>, 13 for the space with \<open>max_epochs = 13\<close> alone, and a configuration
  error when none of the three fields is bound to a fixed integer.
\<close>

theorem hyperband_max_t_inference:
  "HyperbandScheduler_max_t None
     [''epochs'' \<mapsto> Fixed_int 15, ''max_t'' \<mapsto> Fixed_int 14, ''max_epochs'' \<mapsto> Fixed_int 13]
     = Inr 15
   \<and> HyperbandScheduler_max_t None [''max_epochs'' \<mapsto> Fixed_int 13] = Inr 13
   \<and> ((\<forall>name \<in> set max_t_names. \<not> qualifies configspace name)
        \<longrightarrow> HyperbandScheduler_max_t None configspace = Inl Configuration_error)"
proof -
  have "HyperbandScheduler_max_t None
     [''epochs'' \<mapsto> Fixed_int 15, ''max_t'' \<mapsto> Fixed_int 14, ''max_epochs'' \<mapsto> Fixed_int 13]
     = Inr 15"
    by (simp add: HyperbandScheduler_max_t_def max_t_names_def)
  moreover have "HyperbandScheduler_max_t None [''max_epochs'' \<mapsto> Fixed_int 13] = Inr 13"
    by (simp add: HyperbandScheduler_max_t_def max_t_names_def)
  moreover have "HyperbandScheduler_max_t None configspace = Inl Configuration_error"
    if "\<forall>name \<in> set max_t_names. \<not> qualifies configspace name"
    using infer_max_t_None[OF that] by (simp add: HyperbandScheduler_max_t_def)
  ultimately show ?thesis by blast
qed

theorem hyperband_max_t_inference_witness:
  "\<not> qualifies [''blurb'' \<mapsto> Domain] ''epochs''
   \<and> \<not> qualifies [''blurb'' \<mapsto> Domain] ''max_t''
   \<and> \<not> qualifies [''blurb'' \<mapsto> Domain] ''max_epochs''
   \<and> HyperbandScheduler_max_t None [''blurb'' \<mapsto> Domain] = Inl Configuration_error"
proof -
  have q: "\<forall>name \<in> set max_t_names. \<not> qualifies [''blurb'' \<mapsto> Domain] name"
    by (simp add: max_t_names_def qualifies_def)
  with hyperband_max_t_inference[of "[''blurb'' \<mapsto> Domain]"]
  have "HyperbandScheduler_max_t None [''blurb'' \<mapsto> Domain] = Inl Configuration_error"
    by blast
  with q show ?thesis by (simp add: max_t_names_def)
qed

section \<open>The claim on the update of the constrained searcher\<close>

text \<open>
  Claim C8. For a result reported to the update of the constrained searcher: when the
  constraint field is absent from the result the update fails, and, the update of the
  superclass having succeeded, it fails with the assertion error whose message names the
  field; when the field is present, the candidate is labelled with exactly its value
  under the internal constraint name. No value is made up in either case.
\<close>

theorem update_constraint_field:
  "(result (constraint_attr self) = None \<longrightarrow>
      (\<exists>err. ConstrainedGPFIFOSearcher_update self state config result = Inl err)
      \<and> (\<forall>st1. super_update self (fst state) config result = Inr st1 \<longrightarrow>
            ConstrainedGPFIFOSearcher_update self state config result
              = Inl (AssertionError
                  (''Constraint metric '' @ constraint_attr self
                     @ '' not included in reported result. Make sure your evaluation function reports it.''))))
   \<and> (\<forall>v st1. result (constraint_attr self) = Some v
          \<and> super_update self (fst state) config result = Inr st1 \<longrightarrow>
        ConstrainedGPFIFOSearcher_update self state config result
          = Inr (label_candidate self st1 (config, [INTERNAL_CONSTRAINT_NAME self \<mapsto> v]),
                 if searcher_debug_log self then snd state @ [v] else snd state))"
  by (auto simp: ConstrainedGPFIFOSearcher_update_def missing_constraint_message_def
           split: sum.splits)

theorem update_constraint_field_witness:
  "[''loss'' \<mapsto> 1 :: real] (constraint_attr demo_searcher) = None
   \<and> super_update demo_searcher (fst ([], [])) 7 [''loss'' \<mapsto> 1] = Inr []
   \<and> ConstrainedGPFIFOSearcher_update demo_searcher ([], []) 7 [''loss'' \<mapsto> 1]
       = Inl (AssertionError
           ''Constraint metric cost not included in reported result. Make sure your evaluation function reports it.'')
   \<and> [''loss'' \<mapsto> 1, ''cost'' \<mapsto> 2 :: real] (constraint_attr demo_searcher) = Some 2
   \<and> ConstrainedGPFIFOSearcher_update demo_searcher ([], []) 7 [''loss'' \<mapsto> 1, ''cost'' \<mapsto> 2]
       = Inr ([(7, [''constraint_metric'' \<mapsto> 2])], [])"
proof -
  have a: "[''loss'' \<mapsto> 1 :: real] (constraint_attr demo_searcher) = None"
    by (simp add: demo_searcher_def)
  have s: "super_update demo_searcher (fst ([], [])) 7 [''loss'' \<mapsto> 1] = Inr []"
    by (simp add: demo_searcher_def)
  have p: "[''loss'' \<mapsto> 1, ''cost'' \<mapsto> 2 :: real] (constraint_attr demo_searcher) = Some 2"
    by (simp add: demo_searcher_def)
  have s2: "super_update demo_searcher (fst ([], [])) 7 [''loss'' \<mapsto> 1, ''cost'' \<mapsto> 2] = Inr []"
    by (simp add: demo_searcher_def)
  from update_constraint_field[of "[''loss'' \<mapsto> 1]" demo_searcher "([], [])" 7] a s
  have r1: "ConstrainedGPFIFOSearcher_update demo_searcher ([], []) 7 [''loss'' \<mapsto> 1]
       = Inl (AssertionError
           ''Constraint metric cost not included in reported result. Make sure your evaluation function reports it.'')"
    by (simp add: demo_searcher_def)
  from update_constraint_field[of "[''loss'' \<mapsto> 1, ''cost'' \<mapsto> 2]" demo_searcher "([], [])" 7] p s2
  have r2: "ConstrainedGPFIFOSearcher_update demo_searcher ([], []) 7 [''loss'' \<mapsto> 1, ''cost'' \<mapsto> 2]
       = Inr ([(7, [''constraint_metric'' \<mapsto> 2])], [])"
    by (simp add: demo_searcher_def)
  from a s r1 p r2 show ?thesis by blast
qed

end
